theory Spec2Isabelle
  imports Main "HOL-Library.Word" "HOL-Library.Monad_Syntax"
begin

unbundle bit_operations_syntax

section \<open>Basic types of \<^verbatim>\<open>rgb2yuv.hpp\<close>\<close>

text \<open>
  The header declares \<^verbatim>\<open>byte_t\<close> as \<^verbatim>\<open>uint8_t\<close>, and the two three-byte
  structures \<^verbatim>\<open>rgb_t { b_, g_, r_ }\<close> and \<^verbatim>\<open>yuv_t { v_, u_, y_ }\<close>. Field names
  lose their trailing underscore and gain the structure's name as a prefix, since
  a name ending in an underscore cannot be qualified.  \<^verbatim>\<open>size_t\<close> is taken to
  be 64 bits wide.
\<close>

type_synonym byte_t = "8 word"
type_synonym size_t = "64 word"

record rgb_t =
  rgb_b :: "8 word"
  rgb_g :: "8 word"
  rgb_r :: "8 word"

text \<open>
  The enumeration \<^verbatim>\<open>supported\<close>, without its four sentinels
  (\<^verbatim>\<open>rgb_MIN\<close>, \<^verbatim>\<open>rgb_MAX\<close>, \<^verbatim>\<open>yuv_MIN\<close>, \<^verbatim>\<open>yuv_MAX\<close>), for which no template
  specialisation exists, and without the aliases \<^verbatim>\<open>yuv_YUYV\<close>, \<^verbatim>\<open>yuv_I420\<close>
  and \<^verbatim>\<open>yuv_Y411\<close>, which are equal to \<^verbatim>\<open>yuv_YUY2\<close>, \<^verbatim>\<open>yuv_YU12\<close> and
  \<^verbatim>\<open>yuv_Y41P\<close>.
\<close>

datatype supported =
    rgb_888 | rgb_565 | rgb_555 | rgb_444 | rgb_888X
  | yuv_NV24 | yuv_NV42
  | yuv_YUY2 | yuv_YVYU | yuv_UYVY | yuv_VYUY
  | yuv_422P
  | yuv_YV12 | yuv_YU12 | yuv_NV12 | yuv_NV21
  | yuv_Y41P | yuv_411P
  | yuv_YVU9 | yuv_YUV9

datatype plane_type = plane_Y | plane_U | plane_V | plane_R | plane_G | plane_B

text \<open>The numeric value of a \<^verbatim>\<open>plane_type\<close> enumerator, used to index the matrix.\<close>

fun plane_index :: "plane_type \<Rightarrow> nat" where
  "plane_index plane_Y = 0"
| "plane_index plane_U = 1"
| "plane_index plane_V = 2"
| "plane_index plane_R = 3"
| "plane_index plane_G = 4"
| "plane_index plane_B = 5"

text \<open>
  What stops a run: a failed \<^verbatim>\<open>assert\<close> (the model is the build in which
  assertions are checked), or an access to memory that is not there.
\<close>

datatype error = AssertionFailed | InvalidAccess

section \<open>Converting between RGB and YUV planes\<close>

text \<open>
  \<^verbatim>\<open>planes_t { c_, b_, a_ }\<close> is laid over an \<^verbatim>\<open>rgb_t\<close> by
  \<^verbatim>\<open>reinterpret_cast\<close>: the first byte of either structure is \<^verbatim>\<open>c_\<close> and
  \<^verbatim>\<open>b_\<close> (blue), the second \<^verbatim>\<open>b_\<close> and \<^verbatim>\<open>g_\<close>, the third \<^verbatim>\<open>a_\<close> and \<^verbatim>\<open>r_\<close>.
\<close>

record planes_t =
  pl_c :: "8 word"
  pl_b :: "8 word"
  pl_a :: "8 word"

definition cast_rgb :: "rgb_t \<Rightarrow> planes_t" where
  "cast_rgb p = \<lparr>pl_c = rgb_b p, pl_b = rgb_g p, pl_a = rgb_r p\<rparr>"

text \<open>
  \<^verbatim>\<open>int32_t\<close> values are integers, and every arithmetic operation wraps its
  result into the 32-bit two's complement range.  The right shift of a negative
  \<^verbatim>\<open>int32_t\<close> is the arithmetic one, which rounds towards minus infinity as
  \<open>div\<close> on \<open>int\<close> does.
\<close>

definition int32 :: "int \<Rightarrow> int" where
  "int32 x = signed_take_bit 31 x"

definition add32 :: "int \<Rightarrow> int \<Rightarrow> int" where
  "add32 x y = int32 (x + y)"

definition mul32 :: "int \<Rightarrow> int \<Rightarrow> int" where
  "mul32 x y = int32 (x * y)"

definition sar32 :: "int \<Rightarrow> nat \<Rightarrow> int" where
  "sar32 x n = x div 2 ^ n"

record convertor =
  fa :: int
  fb :: int
  fc :: int
  fd :: int
  fe :: int

definition clip :: "int \<Rightarrow> 8 word" where
  "clip v = (if v < 0 then 0 else if v > 255 then 255 else word_of_int v)"

definition convert :: "convertor \<Rightarrow> planes_t \<Rightarrow> 8 word" where
  "convert cv in_p =
     clip (add32 (sar32 (add32 (add32 (add32 (mul32 (fa cv) (uint (pl_a in_p)))
                                              (mul32 (fb cv) (uint (pl_b in_p))))
                                       (mul32 (fc cv) (uint (pl_c in_p))))
                                (fd cv)) 8)
                 (fe cv))"

definition factor_matrix :: "convertor list" where
  "factor_matrix =
     [ \<lparr>fa = 66, fb = 129, fc = 25, fd = 128, fe = 16\<rparr>,
       \<lparr>fa = - 38, fb = - 74, fc = 112, fd = 128, fe = 128\<rparr>,
       \<lparr>fa = 112, fb = - 94, fc = - 18, fd = 128, fe = 128\<rparr>,
       \<lparr>fa = 298, fb = 0, fc = 409, fd = - 56992, fe = 0\<rparr>,
       \<lparr>fa = 298, fb = - 100, fc = - 208, fd = 34784, fe = 0\<rparr>,
       \<lparr>fa = 298, fb = 516, fc = 0, fd = - 70688, fe = 0\<rparr> ]"

definition pixel_convert_planes :: "plane_type \<Rightarrow> planes_t \<Rightarrow> 8 word" where
  "pixel_convert_planes P in_p = convert (factor_matrix ! plane_index P) in_p"

text \<open>
  The overload of \<^verbatim>\<open>pixel_convert\<close> on an \<^verbatim>\<open>rgb_t\<close>; the header provides it for the
  planes \<^verbatim>\<open>plane_Y\<close>, \<^verbatim>\<open>plane_U\<close> and \<^verbatim>\<open>plane_V\<close> only.
\<close>

definition pixel_convert :: "plane_type \<Rightarrow> rgb_t \<Rightarrow> 8 word" where
  "pixel_convert P in_p = pixel_convert_planes P (cast_rgb in_p)"

text \<open>
  The formula of the specification, on unbounded integers: saturation to
  \<open>[0, 255]\<close>, and \<open>clamp (((a * c1 + b * c2 + c * c3 + d) >> 8) + e)\<close>.
\<close>

definition clamp :: "int \<Rightarrow> int" where
  "clamp x = max 0 (min 255 x)"

definition matrix_formula :: "int \<Rightarrow> int \<Rightarrow> int \<Rightarrow> int \<Rightarrow> int \<Rightarrow> int \<Rightarrow> int \<Rightarrow> int \<Rightarrow> int" where
  "matrix_formula a b c d e c1 c2 c3 = clamp ((a * c1 + b * c2 + c * c3 + d) div 256 + e)"


section \<open>Buffer sizes\<close>

text \<open>
  \<^verbatim>\<open>detail_create_buffer_::impl_<S>::size\<close>, one definition per specialisation that
  has a body of its own; the other tags inherit one of them.  The element sizes are
  \<^verbatim>\<open>sizeof(rgb_t) = sizeof(yuv_t) = 3\<close>, \<^verbatim>\<open>sizeof(uint16_t) = 2\<close> and
  \<^verbatim>\<open>sizeof(uint32_t) = 4\<close>.  All arithmetic is that of \<^verbatim>\<open>size_t\<close>.
\<close>

definition size_rgb_888 :: "size_t \<Rightarrow> size_t \<Rightarrow> error + size_t" where
  "size_rgb_888 in_w in_h = Inr ((in_w * in_h) * 3)"

definition size_rgb_565 :: "size_t \<Rightarrow> size_t \<Rightarrow> error + size_t" where
  "size_rgb_565 in_w in_h = Inr ((in_w * in_h) * 2)"

definition size_rgb_444 :: "size_t \<Rightarrow> size_t \<Rightarrow> error + size_t" where
  "size_rgb_444 in_w in_h = Inr (drop_bit 1 (in_w * in_h * 3 + 1))"

definition size_rgb_888X :: "size_t \<Rightarrow> size_t \<Rightarrow> error + size_t" where
  "size_rgb_888X in_w in_h = Inr ((in_w * in_h) * 4)"

definition size_yuv_NV24 :: "size_t \<Rightarrow> size_t \<Rightarrow> error + size_t" where
  "size_yuv_NV24 in_w in_h = Inr ((in_w * in_h) * 3)"

definition size_yuv_YUY2 :: "size_t \<Rightarrow> size_t \<Rightarrow> error + size_t" where
  "size_yuv_YUY2 in_w in_h =
     (let s = in_w * in_h in
      if s AND 1 = 0 then Inr (push_bit 1 s) else Inl AssertionFailed)"

definition size_yuv_Y41P :: "size_t \<Rightarrow> size_t \<Rightarrow> error + size_t" where
  "size_yuv_Y41P in_w in_h =
     (let s = in_w * in_h in
      if s AND 7 = 0 then Inr (s + drop_bit 1 s) else Inl AssertionFailed)"

definition size_yuv_411P :: "size_t \<Rightarrow> size_t \<Rightarrow> error + size_t" where
  "size_yuv_411P in_w in_h =
     (let s = in_w * in_h in
      if s AND 3 = 0 then Inr (s + drop_bit 1 s) else Inl AssertionFailed)"

definition size_yuv_YVU9 :: "size_t \<Rightarrow> size_t \<Rightarrow> error + size_t" where
  "size_yuv_YVU9 in_w in_h =
     (let s = in_w * in_h in
      if s AND 15 = 0 then Inr (s + drop_bit 3 s) else Inl AssertionFailed)"

fun calculate_size :: "supported \<Rightarrow> size_t \<Rightarrow> size_t \<Rightarrow> error + size_t" where
  "calculate_size rgb_888 in_w in_h = size_rgb_888 in_w in_h"
| "calculate_size rgb_565 in_w in_h = size_rgb_565 in_w in_h"
| "calculate_size rgb_555 in_w in_h = size_rgb_565 in_w in_h"
| "calculate_size rgb_444 in_w in_h = size_rgb_444 in_w in_h"
| "calculate_size rgb_888X in_w in_h = size_rgb_888X in_w in_h"
| "calculate_size yuv_NV24 in_w in_h = size_yuv_NV24 in_w in_h"
| "calculate_size yuv_NV42 in_w in_h = size_yuv_NV24 in_w in_h"
| "calculate_size yuv_YUY2 in_w in_h = size_yuv_YUY2 in_w in_h"
| "calculate_size yuv_YVYU in_w in_h = size_yuv_YUY2 in_w in_h"
| "calculate_size yuv_UYVY in_w in_h = size_yuv_YUY2 in_w in_h"
| "calculate_size yuv_VYUY in_w in_h = size_yuv_YUY2 in_w in_h"
| "calculate_size yuv_422P in_w in_h = size_yuv_YUY2 in_w in_h"
| "calculate_size yuv_YV12 in_w in_h = size_yuv_411P in_w in_h"
| "calculate_size yuv_YU12 in_w in_h = size_yuv_411P in_w in_h"
| "calculate_size yuv_NV12 in_w in_h = size_yuv_411P in_w in_h"
| "calculate_size yuv_NV21 in_w in_h = size_yuv_411P in_w in_h"
| "calculate_size yuv_Y41P in_w in_h = size_yuv_Y41P in_w in_h"
| "calculate_size yuv_411P in_w in_h = size_yuv_411P in_w in_h"
| "calculate_size yuv_YVU9 in_w in_h = size_yuv_YVU9 in_w in_h"
| "calculate_size yuv_YUV9 in_w in_h = size_yuv_YVU9 in_w in_h"

text \<open>
  The table of the specification: the divisibility precondition on the pixel count of
  each tag, and the size formulas, on \<^verbatim>\<open>size_t\<close> values and on natural numbers.
\<close>

fun divisor :: "supported \<Rightarrow> nat" where
  "divisor rgb_888 = 1"
| "divisor rgb_565 = 1"
| "divisor rgb_555 = 1"
| "divisor rgb_444 = 1"
| "divisor rgb_888X = 1"
| "divisor yuv_NV24 = 1"
| "divisor yuv_NV42 = 1"
| "divisor yuv_YUY2 = 2"
| "divisor yuv_YVYU = 2"
| "divisor yuv_UYVY = 2"
| "divisor yuv_VYUY = 2"
| "divisor yuv_422P = 2"
| "divisor yuv_YV12 = 4"
| "divisor yuv_YU12 = 4"
| "divisor yuv_NV12 = 4"
| "divisor yuv_NV21 = 4"
| "divisor yuv_Y41P = 8"
| "divisor yuv_411P = 4"
| "divisor yuv_YVU9 = 16"
| "divisor yuv_YUV9 = 16"

fun required_bytes :: "supported \<Rightarrow> size_t \<Rightarrow> size_t" where
  "required_bytes rgb_888 pixels = pixels * 3"
| "required_bytes rgb_565 pixels = pixels * 2"
| "required_bytes rgb_555 pixels = pixels * 2"
| "required_bytes rgb_444 pixels = (pixels * 3 + 1) div 2"
| "required_bytes rgb_888X pixels = pixels * 4"
| "required_bytes yuv_NV24 pixels = pixels * 3"
| "required_bytes yuv_NV42 pixels = pixels * 3"
| "required_bytes yuv_YUY2 pixels = pixels * 2"
| "required_bytes yuv_YVYU pixels = pixels * 2"
| "required_bytes yuv_UYVY pixels = pixels * 2"
| "required_bytes yuv_VYUY pixels = pixels * 2"
| "required_bytes yuv_422P pixels = pixels * 2"
| "required_bytes yuv_YV12 pixels = pixels + pixels div 2"
| "required_bytes yuv_YU12 pixels = pixels + pixels div 2"
| "required_bytes yuv_NV12 pixels = pixels + pixels div 2"
| "required_bytes yuv_NV21 pixels = pixels + pixels div 2"
| "required_bytes yuv_Y41P pixels = pixels + pixels div 2"
| "required_bytes yuv_411P pixels = pixels + pixels div 2"
| "required_bytes yuv_YVU9 pixels = pixels + pixels div 8"
| "required_bytes yuv_YUV9 pixels = pixels + pixels div 8"

fun required_bytes_nat :: "supported \<Rightarrow> nat \<Rightarrow> nat" where
  "required_bytes_nat rgb_888 pixels = pixels * 3"
| "required_bytes_nat rgb_565 pixels = pixels * 2"
| "required_bytes_nat rgb_555 pixels = pixels * 2"
| "required_bytes_nat rgb_444 pixels = (pixels * 3 + 1) div 2"
| "required_bytes_nat rgb_888X pixels = pixels * 4"
| "required_bytes_nat yuv_NV24 pixels = pixels * 3"
| "required_bytes_nat yuv_NV42 pixels = pixels * 3"
| "required_bytes_nat yuv_YUY2 pixels = pixels * 2"
| "required_bytes_nat yuv_YVYU pixels = pixels * 2"
| "required_bytes_nat yuv_UYVY pixels = pixels * 2"
| "required_bytes_nat yuv_VYUY pixels = pixels * 2"
| "required_bytes_nat yuv_422P pixels = pixels * 2"
| "required_bytes_nat yuv_YV12 pixels = pixels + pixels div 2"
| "required_bytes_nat yuv_YU12 pixels = pixels + pixels div 2"
| "required_bytes_nat yuv_NV12 pixels = pixels + pixels div 2"
| "required_bytes_nat yuv_NV21 pixels = pixels + pixels div 2"
| "required_bytes_nat yuv_Y41P pixels = pixels + pixels div 2"
| "required_bytes_nat yuv_411P pixels = pixels + pixels div 2"
| "required_bytes_nat yuv_YVU9 pixels = pixels + pixels div 8"
| "required_bytes_nat yuv_YUV9 pixels = pixels + pixels div 8"

section \<open>The default allocator and the heap\<close>

text \<open>
  A pointer is null or an address.  The heap holds the pointers that
  \<^verbatim>\<open>operator new (size, std::nothrow)\<close> is going to return, in this order (the
  system decides them, a null pointer is a failed allocation, and an empty list is
  an exhausted memory), and the non-null pointers handed to \<^verbatim>\<open>operator delete\<close>
  so far, which does nothing on a null pointer.
\<close>

datatype ptr = NULL | Ptr nat

record heap =
  pending :: "ptr list"
  freed :: "ptr list"

definition operator_new :: "size_t \<Rightarrow> heap \<Rightarrow> ptr \<times> heap" where
  "operator_new sz h =
     (case pending h of
        [] \<Rightarrow> (NULL, h)
      | p # ps \<Rightarrow> (p, h\<lparr>pending := ps\<rparr>))"

definition operator_delete :: "ptr \<Rightarrow> heap \<Rightarrow> heap" where
  "operator_delete p h = (if p = NULL then h else h\<lparr>freed := freed h @ [p]\<rparr>)"

definition alloc :: "size_t \<Rightarrow> heap \<Rightarrow> ptr \<times> heap" where
  "alloc sz h = (if sz = 0 then (NULL, h) else operator_new sz h)"

definition free :: "ptr \<Rightarrow> heap \<Rightarrow> heap" where
  "free p h = operator_delete p h"

section \<open>The memory block \<^verbatim>\<open>scope_block\<close>\<close>

text \<open>
  The class template \<^verbatim>\<open>scope_block<T, AllocT>\<close> with the default allocator.  The
  element type \<^verbatim>\<open>T\<close> is a parameter of every operation that depends on it; the
  header instantiates the template with \<^verbatim>\<open>byte_t\<close>, \<^verbatim>\<open>rgb_t\<close> and \<^verbatim>\<open>uint16_t\<close>,
  and any other element type is known by a name and its size.
\<close>

datatype elem_type = elem_byte | elem_rgb | elem_uint16 | elem_other string size_t

fun sizeof :: "elem_type \<Rightarrow> size_t" where
  "sizeof elem_byte = 1"
| "sizeof elem_rgb = 3"
| "sizeof elem_uint16 = 2"
| "sizeof (elem_other name n) = n"

record scope_block =
  sb_block :: ptr
  sb_count :: size_t
  sb_trust :: bool

text \<open>The member initialisers \<^verbatim>\<open>block_(NULL), count_(0), trust_(false)\<close> of each constructor.\<close>

definition initial :: scope_block where
  "initial = \<lparr>sb_block = NULL, sb_count = 0, sb_trust = False\<rparr>"

definition data :: "scope_block \<Rightarrow> ptr" where
  "data this = sb_block this"

definition count :: "scope_block \<Rightarrow> size_t" where
  "count this = sb_count this"

definition size_bytes :: "elem_type \<Rightarrow> scope_block \<Rightarrow> size_t" where
  "size_bytes T this = count this * sizeof T"

definition is_trusted :: "scope_block \<Rightarrow> bool" where
  "is_trusted this = sb_trust this"

definition destructor :: "scope_block \<Rightarrow> heap \<Rightarrow> heap" where
  "destructor this h = (if sb_trust this then free (sb_block this) h else h)"

definition reset_count :: "elem_type \<Rightarrow> size_t \<Rightarrow> scope_block \<Rightarrow> heap \<Rightarrow> scope_block \<times> heap" where
  "reset_count T cnt this h =
     (let h1 = destructor this h;
          this1 = this\<lparr>sb_count := cnt\<rparr>;
          (p, h2) = alloc (size_bytes T this1) h1;
          this2 = this1\<lparr>sb_block := p\<rparr>
      in (this2\<lparr>sb_trust := True\<rparr>, h2))"

definition reset_block :: "ptr \<Rightarrow> size_t \<Rightarrow> scope_block \<Rightarrow> heap \<Rightarrow> scope_block \<times> heap" where
  "reset_block block cnt this h =
     (let h1 = destructor this h;
          this1 = this\<lparr>sb_count := cnt\<rparr>;
          this2 = this1\<lparr>sb_block := block\<rparr>
      in (this2\<lparr>sb_trust := False\<rparr>, h1))"

definition trust :: "bool \<Rightarrow> scope_block \<Rightarrow> scope_block" where
  "trust t this = this\<lparr>sb_trust := t\<rparr>"

text \<open>The two overloads of \<^verbatim>\<open>swap\<close>; each returns the receiver and the argument.\<close>

definition swap :: "scope_block \<Rightarrow> scope_block \<Rightarrow> scope_block \<times> scope_block" where
  "swap this rhs =
     (this\<lparr>sb_block := sb_block rhs, sb_count := sb_count rhs, sb_trust := sb_trust rhs\<rparr>,
      rhs\<lparr>sb_block := sb_block this, sb_count := sb_count this, sb_trust := sb_trust this\<rparr>)"

definition swap_U :: "elem_type \<Rightarrow> elem_type \<Rightarrow> scope_block \<Rightarrow> scope_block \<Rightarrow> scope_block \<times> scope_block" where
  "swap_U T U this rhs =
     (let tmp_ptr = sb_block this;
          this1 = this\<lparr>sb_block := sb_block rhs\<rparr>;
          rhs1 = rhs\<lparr>sb_block := tmp_ptr\<rparr>;
          ths_size = size_bytes T this1;
          rhs_size = size_bytes U rhs1;
          this2 = this1\<lparr>sb_count := rhs_size div sizeof T\<rparr>;
          rhs2 = rhs1\<lparr>sb_count := ths_size div sizeof U\<rparr>
      in (this2\<lparr>sb_trust := sb_trust rhs2\<rparr>, rhs2\<lparr>sb_trust := sb_trust this2\<rparr>))"

text \<open>
  \<^verbatim>\<open>move\<close> calls \<^verbatim>\<open>swap\<close> on its argument; overload resolution takes the
  non-template \<^verbatim>\<open>swap\<close> when the argument has the receiver's own type.
\<close>

definition move :: "elem_type \<Rightarrow> elem_type \<Rightarrow> scope_block \<Rightarrow> scope_block \<Rightarrow> scope_block \<times> scope_block" where
  "move T U this rhs = (if U = T then swap this rhs else swap_U T U this rhs)"

text \<open>The three constructors.\<close>

definition scope_block_count :: "elem_type \<Rightarrow> size_t \<Rightarrow> heap \<Rightarrow> scope_block \<times> heap" where
  "scope_block_count T cnt h = reset_count T cnt initial h"

definition scope_block_block :: "ptr \<Rightarrow> size_t \<Rightarrow> heap \<Rightarrow> scope_block \<times> heap" where
  "scope_block_block block cnt h = reset_block block cnt initial h"


definition dismiss :: "scope_block \<Rightarrow> ptr \<times> scope_block" where
  "dismiss this =
     (let data_ret = data this
      in (data_ret, this\<lparr>sb_block := NULL, sb_count := 0, sb_trust := False\<rparr>))"

section \<open>RGB formatting to 888\<close>

text \<open>
  The formatters work on raw memory.  The memory is a set of blocks of bytes, each
  known by its address; a pointer is the address of a block, and the code moves
  through a block by an offset from its start.  An access through a null pointer, to
  an address that has no block, or past the end of a block is an invalid access.  The
  blocks at the addresses that the allocator is going to hand out are part of the
  memory, with whatever bytes they hold.
\<close>

type_synonym memory = "nat \<Rightarrow> 8 word list option"

fun peek :: "memory \<Rightarrow> ptr \<Rightarrow> nat \<Rightarrow> error + 8 word" where
  "peek mem NULL i = Inl InvalidAccess"
| "peek mem (Ptr a) i =
     (case mem a of
        None \<Rightarrow> Inl InvalidAccess
      | Some blk \<Rightarrow> if i < length blk then Inr (blk ! i) else Inl InvalidAccess)"

fun poke :: "memory \<Rightarrow> ptr \<Rightarrow> nat \<Rightarrow> 8 word \<Rightarrow> error + memory" where
  "poke mem NULL i v = Inl InvalidAccess"
| "poke mem (Ptr a) i v =
     (case mem a of
        None \<Rightarrow> Inl InvalidAccess
      | Some blk \<Rightarrow> if i < length blk then Inr (mem(a \<mapsto> blk[i := v])) else Inl InvalidAccess)"

text \<open>
  \<^verbatim>\<open>*cur_pixel\<close> for a \<^verbatim>\<open>uint16_t *\<close> at byte offset \<open>c\<close>: two bytes, the low one first,
  promoted to \<^verbatim>\<open>int\<close>.
\<close>

definition peek16 :: "memory \<Rightarrow> ptr \<Rightarrow> nat \<Rightarrow> error + 32 word" where
  "peek16 mem p c =
     (case peek mem p c of
        Inl e \<Rightarrow> Inl e
      | Inr lo \<Rightarrow>
          (case peek mem p (c + 1) of
             Inl e \<Rightarrow> Inl e
           | Inr hi \<Rightarrow> Inr (ucast lo OR push_bit 8 (ucast hi))))"















section \<open>Writers of the subsampled layouts\<close>

text \<open>
  A writer reads the canonical pixels \<^verbatim>\<open>in_data\<close>, a list, and writes into the
  destination block \<^verbatim>\<open>ot_data\<close>, a list of bytes; a pointer into the destination
  is an index of the list.  The header indexes and dereferences without any
  check: an access outside its block is undefined behaviour, and ends the run of
  the model with \<open>None\<close>.  Widths, heights, indices and pointers are natural
  numbers; the one product a writer computes, \<^verbatim>\<open>in_w * in_h\<close>, wraps as a
  \<^verbatim>\<open>size_t\<close> does.
\<close>

definition load :: "'a list \<Rightarrow> nat \<Rightarrow> 'a option" where
  "load xs i = (if i < length xs then Some (xs ! i) else None)"

definition store :: "'a list \<Rightarrow> nat \<Rightarrow> 'a \<Rightarrow> 'a list option" where
  "store xs i v = (if i < length xs then Some (xs[i := v]) else None)"

definition size_t_mul :: "nat \<Rightarrow> nat \<Rightarrow> nat" where
  "size_t_mul a b = (a * b) mod 18446744073709551616"

text \<open>
  The chroma accumulators \<^verbatim>\<open>u_k\<close>, \<^verbatim>\<open>v_k\<close>, \<^verbatim>\<open>u_tmp[k]\<close> and \<^verbatim>\<open>v_tmp[k]\<close> are
  \<^verbatim>\<open>uint16_t\<close>: \<^verbatim>\<open>acc = x\<close> widens the byte, \<^verbatim>\<open>acc += x\<close> adds it modulo
  \<open>2 ^ 16\<close>, and \<^verbatim>\<open>acc >> n\<close> stored into a byte keeps the low eight bits.
\<close>

datatype assign_op = Assign | AddAssign

definition apply_op :: "assign_op \<Rightarrow> 16 word \<Rightarrow> 8 word \<Rightarrow> 16 word" where
  "apply_op OP acc x = (case OP of Assign \<Rightarrow> ucast x | AddAssign \<Rightarrow> acc + ucast x)"

definition shr_byte :: "16 word \<Rightarrow> nat \<Rightarrow> 8 word" where
  "shr_byte acc n = ucast (drop_bit n acc)"

text \<open>\<^verbatim>\<open>u_tmp[k] = x\<close> and \<^verbatim>\<open>u_tmp[k] += x\<close> on an accumulator block.\<close>

definition cell_op :: "assign_op \<Rightarrow> 16 word list \<Rightarrow> nat \<Rightarrow> 8 word \<Rightarrow> 16 word list option" where
  "cell_op OP tmp k x = do { acc \<leftarrow> load tmp k; store tmp k (apply_op OP acc x) }"

subsection \<open>Packed 4:2:2\<close>

text \<open>
  The byte offsets of the fields of \<^verbatim>\<open>detail_transform_::yuv_t<Tar>\<close>, which exists
  for the four packed 4:2:2 tags (and for \<^verbatim>\<open>yuv_Y41P\<close>, below).
\<close>

fun off_y0 :: "supported \<Rightarrow> nat" where
  "off_y0 yuv_YUY2 = 0" | "off_y0 yuv_YVYU = 0" | "off_y0 yuv_UYVY = 1" | "off_y0 yuv_VYUY = 1"

fun off_cb :: "supported \<Rightarrow> nat" where
  "off_cb yuv_YUY2 = 1" | "off_cb yuv_YVYU = 3" | "off_cb yuv_UYVY = 0" | "off_cb yuv_VYUY = 2"

fun off_y1 :: "supported \<Rightarrow> nat" where
  "off_y1 yuv_YUY2 = 2" | "off_y1 yuv_YVYU = 2" | "off_y1 yuv_UYVY = 3" | "off_y1 yuv_VYUY = 3"

fun off_cr :: "supported \<Rightarrow> nat" where
  "off_cr yuv_YUY2 = 3" | "off_cr yuv_YVYU = 1" | "off_cr yuv_UYVY = 2" | "off_cr yuv_VYUY = 0"

function packed422_loop ::
  "supported \<Rightarrow> rgb_t list \<Rightarrow> nat \<Rightarrow> nat \<Rightarrow> nat \<Rightarrow> 8 word list \<Rightarrow> 8 word list option" where
  "packed422_loop Tar in_data s i p_yuv ot =
     (if i < s then do {
        rgb0 \<leftarrow> load in_data i;
        ot1 \<leftarrow> store ot (p_yuv + off_y0 Tar) (pixel_convert plane_Y rgb0);
        let u_k0 = apply_op Assign 0 (pixel_convert plane_U rgb0);
        let v_k0 = apply_op Assign 0 (pixel_convert plane_V rgb0);
        rgb1 \<leftarrow> load in_data (i + 1);
        ot2 \<leftarrow> store ot1 (p_yuv + off_y1 Tar) (pixel_convert plane_Y rgb1);
        let u_k = apply_op AddAssign u_k0 (pixel_convert plane_U rgb1);
        ot3 \<leftarrow> store ot2 (p_yuv + off_cb Tar) (shr_byte u_k 1);
        let v_k = apply_op AddAssign v_k0 (pixel_convert plane_V rgb1);
        ot4 \<leftarrow> store ot3 (p_yuv + off_cr Tar) (shr_byte v_k 1);
        packed422_loop Tar in_data s (i + 2) (p_yuv + 4) ot4
      } else Some ot)"
  by pat_completeness auto
termination
  by (relation "measure (\<lambda>(Tar, in_data, s, i, p_yuv, ot). s - i)") auto

definition transform_to_packed422 ::
  "supported \<Rightarrow> rgb_t list \<Rightarrow> nat \<Rightarrow> nat \<Rightarrow> 8 word list \<Rightarrow> 8 word list option" where
  "transform_to_packed422 Tar in_data in_w in_h ot_data =
     (let p_yuv = 0; s = size_t_mul in_w in_h
      in packed422_loop Tar in_data s 0 p_yuv ot_data)"

subsection \<open>Packed 4:1:1\<close>

text \<open>
  \<^verbatim>\<open>yuv_t<yuv_Y41P>\<close> is twelve bytes: \<^verbatim>\<open>u0_, y0_, v0_, y1_, u1_, y2_, v1_, y3_,
  y4_, y5_, y6_, y7_\<close>.  \<open>y41p_y I\<close> is the offset of the field \<^verbatim>\<open>y##I##_\<close>.  The macro
  \<^verbatim>\<open>R2Y_TRANSFORM_TO_(I, OP, ...)\<close> of this writer is \<open>y41p_pixel\<close>, without the
  increment of \<^verbatim>\<open>i\<close> and without its trailing statements.
\<close>

definition y41p_y :: "nat \<Rightarrow> nat" where
  "y41p_y I = [1, 3, 5, 7, 8, 9, 10, 11] ! I"

definition y41p_pixel ::
  "nat \<Rightarrow> assign_op \<Rightarrow> rgb_t list \<Rightarrow> nat \<Rightarrow> nat \<Rightarrow> 16 word \<Rightarrow> 16 word \<Rightarrow> 8 word list
   \<Rightarrow> (16 word \<times> 16 word \<times> 8 word list) option" where
  "y41p_pixel I OP in_data i p_yuv u_k v_k ot = do {
     rgb \<leftarrow> load in_data i;
     ot1 \<leftarrow> store ot (p_yuv + y41p_y I) (pixel_convert plane_Y rgb);
     Some (apply_op OP u_k (pixel_convert plane_U rgb),
           apply_op OP v_k (pixel_convert plane_V rgb), ot1)
   }"

function y41p_loop ::
  "rgb_t list \<Rightarrow> nat \<Rightarrow> nat \<Rightarrow> nat \<Rightarrow> 16 word \<Rightarrow> 16 word \<Rightarrow> 8 word list \<Rightarrow> 8 word list option" where
  "y41p_loop in_data s i p_yuv u_k v_k ot =
     (if i < s then do {
        (u_k, v_k, ot) \<leftarrow> y41p_pixel 0 Assign in_data i p_yuv u_k v_k ot;
        (u_k, v_k, ot) \<leftarrow> y41p_pixel 1 AddAssign in_data (i + 1) p_yuv u_k v_k ot;
        (u_k, v_k, ot) \<leftarrow> y41p_pixel 2 AddAssign in_data (i + 2) p_yuv u_k v_k ot;
        (u_k, v_k, ot) \<leftarrow> y41p_pixel 3 AddAssign in_data (i + 3) p_yuv u_k v_k ot;
        ot \<leftarrow> store ot (p_yuv + 0) (shr_byte u_k 2);
        ot \<leftarrow> store ot (p_yuv + 2) (shr_byte v_k 2);
        (u_k, v_k, ot) \<leftarrow> y41p_pixel 4 Assign in_data (i + 4) p_yuv u_k v_k ot;
        (u_k, v_k, ot) \<leftarrow> y41p_pixel 5 AddAssign in_data (i + 5) p_yuv u_k v_k ot;
        (u_k, v_k, ot) \<leftarrow> y41p_pixel 6 AddAssign in_data (i + 6) p_yuv u_k v_k ot;
        (u_k, v_k, ot) \<leftarrow> y41p_pixel 7 AddAssign in_data (i + 7) p_yuv u_k v_k ot;
        ot \<leftarrow> store ot (p_yuv + 4) (shr_byte u_k 2);
        ot \<leftarrow> store ot (p_yuv + 6) (shr_byte v_k 2);
        y41p_loop in_data s (i + 8) (p_yuv + 12) u_k v_k ot
      } else Some ot)"
  by pat_completeness auto
termination
  by (relation "measure (\<lambda>(in_data, s, i, p_yuv, u_k, v_k, ot). s - i)") auto

text \<open>
  \<^verbatim>\<open>u_k\<close> and \<^verbatim>\<open>v_k\<close> are declared without a value; \<open>u_init\<close> and \<open>v_init\<close> are
  what they hold then.
\<close>

definition transform_to_Y41P ::
  "rgb_t list \<Rightarrow> nat \<Rightarrow> nat \<Rightarrow> 16 word \<Rightarrow> 16 word \<Rightarrow> 8 word list \<Rightarrow> 8 word list option" where
  "transform_to_Y41P in_data in_w in_h u_init v_init ot_data =
     (let p_yuv = 0; s = size_t_mul in_w in_h
      in y41p_loop in_data s 0 p_yuv u_init v_init ot_data)"

subsection \<open>Planes of the planar and semi-planar layouts\<close>

text \<open>
  \<^verbatim>\<open>split<S, P>\<close> gives the start of plane \<open>P\<close> in a block that starts at
  \<^verbatim>\<open>in_data\<close>; it exists for the combinations below.
\<close>

fun split :: "supported \<Rightarrow> plane_type \<Rightarrow> nat \<Rightarrow> nat \<Rightarrow> nat \<Rightarrow> nat" where
  "split S plane_Y in_data in_w in_h = in_data"
| "split yuv_YU12 plane_U in_data in_w in_h = in_data + size_t_mul in_w in_h"
| "split yuv_411P plane_U in_data in_w in_h = in_data + size_t_mul in_w in_h"
| "split yuv_422P plane_U in_data in_w in_h = in_data + size_t_mul in_w in_h"
| "split yuv_YUV9 plane_U in_data in_w in_h = in_data + size_t_mul in_w in_h"
| "split yuv_YV12 plane_V in_data in_w in_h = in_data + size_t_mul in_w in_h"
| "split yuv_YVU9 plane_V in_data in_w in_h = in_data + size_t_mul in_w in_h"
| "split yuv_422P plane_V in_data in_w in_h =
     (let s = size_t_mul in_w in_h in in_data + s + drop_bit 1 s)"
| "split yuv_YU12 plane_V in_data in_w in_h =
     (let s = size_t_mul in_w in_h in in_data + s + drop_bit 2 s)"
| "split yuv_411P plane_V in_data in_w in_h =
     (let s = size_t_mul in_w in_h in in_data + s + drop_bit 2 s)"
| "split yuv_YV12 plane_U in_data in_w in_h =
     (let s = size_t_mul in_w in_h in in_data + s + drop_bit 2 s)"
| "split yuv_YUV9 plane_V in_data in_w in_h =
     (let s = size_t_mul in_w in_h in in_data + s + drop_bit 4 s)"
| "split yuv_YVU9 plane_U in_data in_w in_h =
     (let s = size_t_mul in_w in_h in in_data + s + drop_bit 4 s)"

text \<open>
  \<^verbatim>\<open>uv_t<S>\<close> is a pair of pointers \<^verbatim>\<open>cb_, cr_\<close> for the planar tags and one pointer
  \<^verbatim>\<open>uv_\<close> to a two-byte structure for the semi-planar tags; \<open>inner_cb\<close> and
  \<open>inner_cr\<close> are the offsets of the two fields of that structure.
\<close>

datatype uv_t = uv_planar nat nat | uv_semi nat

fun inner_cb :: "supported \<Rightarrow> nat" where
  "inner_cb yuv_NV24 = 0" | "inner_cb yuv_NV42 = 1" | "inner_cb yuv_NV12 = 0" | "inner_cb yuv_NV21 = 1"

fun inner_cr :: "supported \<Rightarrow> nat" where
  "inner_cr yuv_NV24 = 1" | "inner_cr yuv_NV42 = 0" | "inner_cr yuv_NV12 = 1" | "inner_cr yuv_NV21 = 0"

fun fill :: "supported \<Rightarrow> nat \<Rightarrow> nat \<Rightarrow> nat \<Rightarrow> uv_t" where
  "fill yuv_NV24 in_data in_w in_h = uv_semi (split yuv_YU12 plane_U in_data in_w in_h)"
| "fill yuv_NV42 in_data in_w in_h = uv_semi (split yuv_YU12 plane_U in_data in_w in_h)"
| "fill yuv_NV12 in_data in_w in_h = uv_semi (split yuv_YU12 plane_U in_data in_w in_h)"
| "fill yuv_NV21 in_data in_w in_h = uv_semi (split yuv_YU12 plane_U in_data in_w in_h)"
| "fill yuv_YV12 in_data in_w in_h =
     uv_planar (split yuv_YV12 plane_U in_data in_w in_h) (split yuv_YV12 plane_V in_data in_w in_h)"
| "fill yuv_YU12 in_data in_w in_h =
     uv_planar (split yuv_YU12 plane_U in_data in_w in_h) (split yuv_YU12 plane_V in_data in_w in_h)"
| "fill yuv_411P in_data in_w in_h =
     uv_planar (split yuv_411P plane_U in_data in_w in_h) (split yuv_411P plane_V in_data in_w in_h)"
| "fill yuv_422P in_data in_w in_h =
     uv_planar (split yuv_422P plane_U in_data in_w in_h) (split yuv_422P plane_V in_data in_w in_h)"
| "fill yuv_YUV9 in_data in_w in_h =
     uv_planar (split yuv_YUV9 plane_U in_data in_w in_h) (split yuv_YUV9 plane_V in_data in_w in_h)"
| "fill yuv_YVU9 in_data in_w in_h =
     uv_planar (split yuv_YVU9 plane_U in_data in_w in_h) (split yuv_YVU9 plane_V in_data in_w in_h)"

fun set_and_next ::
  "supported \<Rightarrow> 16 word \<Rightarrow> 16 word \<Rightarrow> uv_t \<Rightarrow> 8 word list \<Rightarrow> (uv_t \<times> 8 word list) option" where
  "set_and_next yuv_422P in_u in_v (uv_planar cb cr) ot = do {
     ot1 \<leftarrow> store ot cb (shr_byte in_u 1);
     ot2 \<leftarrow> store ot1 cr (shr_byte in_v 1);
     Some (uv_planar (cb + 1) (cr + 1), ot2)
   }"
| "set_and_next yuv_YV12 in_u in_v (uv_planar cb cr) ot = do {
     ot1 \<leftarrow> store ot cb (shr_byte in_u 2);
     ot2 \<leftarrow> store ot1 cr (shr_byte in_v 2);
     Some (uv_planar (cb + 1) (cr + 1), ot2)
   }"
| "set_and_next yuv_YU12 in_u in_v (uv_planar cb cr) ot = do {
     ot1 \<leftarrow> store ot cb (shr_byte in_u 2);
     ot2 \<leftarrow> store ot1 cr (shr_byte in_v 2);
     Some (uv_planar (cb + 1) (cr + 1), ot2)
   }"
| "set_and_next yuv_411P in_u in_v (uv_planar cb cr) ot = do {
     ot1 \<leftarrow> store ot cb (shr_byte in_u 2);
     ot2 \<leftarrow> store ot1 cr (shr_byte in_v 2);
     Some (uv_planar (cb + 1) (cr + 1), ot2)
   }"
| "set_and_next yuv_NV12 in_u in_v (uv_semi uv) ot = do {
     ot1 \<leftarrow> store ot (uv + inner_cb yuv_NV12) (shr_byte in_u 2);
     ot2 \<leftarrow> store ot1 (uv + inner_cr yuv_NV12) (shr_byte in_v 2);
     Some (uv_semi (uv + 2), ot2)
   }"
| "set_and_next yuv_NV21 in_u in_v (uv_semi uv) ot = do {
     ot1 \<leftarrow> store ot (uv + inner_cb yuv_NV21) (shr_byte in_u 2);
     ot2 \<leftarrow> store ot1 (uv + inner_cr yuv_NV21) (shr_byte in_v 2);
     Some (uv_semi (uv + 2), ot2)
   }"
| "set_and_next yuv_YUV9 in_u in_v (uv_planar cb cr) ot = do {
     ot1 \<leftarrow> store ot cb (shr_byte in_u 4);
     ot2 \<leftarrow> store ot1 cr (shr_byte in_v 4);
     Some (uv_planar (cb + 1) (cr + 1), ot2)
   }"
| "set_and_next yuv_YVU9 in_u in_v (uv_planar cb cr) ot = do {
     ot1 \<leftarrow> store ot cb (shr_byte in_u 4);
     ot2 \<leftarrow> store ot1 cr (shr_byte in_v 4);
     Some (uv_planar (cb + 1) (cr + 1), ot2)
   }"

subsection \<open>Planar 4:2:2 and 4:1:1\<close>

text \<open>
  The macro \<^verbatim>\<open>R2Y_TRANSFORM_TO_(OP, ...)\<close> of the two writers, without the increments
  of \<^verbatim>\<open>i\<close> and \<^verbatim>\<open>p_y\<close> and without its trailing statements.
\<close>

definition planar_pixel ::
  "assign_op \<Rightarrow> rgb_t list \<Rightarrow> nat \<Rightarrow> nat \<Rightarrow> 16 word \<Rightarrow> 16 word \<Rightarrow> 8 word list
   \<Rightarrow> (16 word \<times> 16 word \<times> 8 word list) option" where
  "planar_pixel OP in_data i p_y u_k v_k ot = do {
     rgb \<leftarrow> load in_data i;
     ot1 \<leftarrow> store ot p_y (pixel_convert plane_Y rgb);
     Some (apply_op OP u_k (pixel_convert plane_U rgb),
           apply_op OP v_k (pixel_convert plane_V rgb), ot1)
   }"

function planar422_loop ::
  "rgb_t list \<Rightarrow> nat \<Rightarrow> nat \<Rightarrow> nat \<Rightarrow> uv_t \<Rightarrow> 16 word \<Rightarrow> 16 word
   \<Rightarrow> 8 word list \<Rightarrow> 8 word list option" where
  "planar422_loop in_data s i p_y p_uv u_k v_k ot =
     (if i < s then do {
        (u_k, v_k, ot) \<leftarrow> planar_pixel Assign in_data i p_y u_k v_k ot;
        (u_k, v_k, ot) \<leftarrow> planar_pixel AddAssign in_data (i + 1) (p_y + 1) u_k v_k ot;
        (p_uv, ot) \<leftarrow> set_and_next yuv_422P u_k v_k p_uv ot;
        planar422_loop in_data s (i + 2) (p_y + 2) p_uv u_k v_k ot
      } else Some ot)"
  by pat_completeness auto
termination
  by (relation "measure (\<lambda>(in_data, s, i, p_y, p_uv, u_k, v_k, ot). s - i)") auto

definition transform_to_422P ::
  "rgb_t list \<Rightarrow> nat \<Rightarrow> nat \<Rightarrow> 16 word \<Rightarrow> 16 word \<Rightarrow> 8 word list \<Rightarrow> 8 word list option" where
  "transform_to_422P in_data in_w in_h u_init v_init ot_data =
     (let p_y = split yuv_422P plane_Y 0 in_w in_h;
          p_uv = fill yuv_422P 0 in_w in_h;
          s = size_t_mul in_w in_h
      in planar422_loop in_data s 0 p_y p_uv u_init v_init ot_data)"

function planar411_loop ::
  "rgb_t list \<Rightarrow> nat \<Rightarrow> nat \<Rightarrow> nat \<Rightarrow> uv_t \<Rightarrow> 16 word \<Rightarrow> 16 word
   \<Rightarrow> 8 word list \<Rightarrow> 8 word list option" where
  "planar411_loop in_data s i p_y p_uv u_k v_k ot =
     (if i < s then do {
        (u_k, v_k, ot) \<leftarrow> planar_pixel Assign in_data i p_y u_k v_k ot;
        (u_k, v_k, ot) \<leftarrow> planar_pixel AddAssign in_data (i + 1) (p_y + 1) u_k v_k ot;
        (u_k, v_k, ot) \<leftarrow> planar_pixel AddAssign in_data (i + 2) (p_y + 2) u_k v_k ot;
        (u_k, v_k, ot) \<leftarrow> planar_pixel AddAssign in_data (i + 3) (p_y + 3) u_k v_k ot;
        (p_uv, ot) \<leftarrow> set_and_next yuv_411P u_k v_k p_uv ot;
        planar411_loop in_data s (i + 4) (p_y + 4) p_uv u_k v_k ot
      } else Some ot)"
  by pat_completeness auto
termination
  by (relation "measure (\<lambda>(in_data, s, i, p_y, p_uv, u_k, v_k, ot). s - i)") auto

definition transform_to_411P ::
  "rgb_t list \<Rightarrow> nat \<Rightarrow> nat \<Rightarrow> 16 word \<Rightarrow> 16 word \<Rightarrow> 8 word list \<Rightarrow> 8 word list option" where
  "transform_to_411P in_data in_w in_h u_init v_init ot_data =
     (let p_y = split yuv_411P plane_Y 0 in_w in_h;
          p_uv = fill yuv_411P 0 in_w in_h;
          s = size_t_mul in_w in_h
      in planar411_loop in_data s 0 p_y p_uv u_init v_init ot_data)"

subsection \<open>4:2:0\<close>

text \<open>
  The state of the row loops: \<^verbatim>\<open>index\<close>, \<^verbatim>\<open>p_y\<close>, \<^verbatim>\<open>p_uv\<close>, the accumulator
  blocks \<^verbatim>\<open>u_tmp\<close> and \<^verbatim>\<open>v_tmp\<close>, and the destination.  The writer has one inner
  loop for the rows on which \<^verbatim>\<open>is_h_even\<close> holds and one for the other rows.
\<close>

type_synonym row_state = "nat \<times> nat \<times> uv_t \<times> 16 word list \<times> 16 word list \<times> 8 word list"

function row420_even ::
  "supported \<Rightarrow> rgb_t list \<Rightarrow> nat \<Rightarrow> nat \<Rightarrow> bool \<Rightarrow> row_state \<Rightarrow> row_state option" where
  "row420_even Tar in_data in_w j is_w_even (index, p_y, p_uv, u_tmp, v_tmp, ot) =
     (if j < in_w then do {
        rgb \<leftarrow> load in_data index;
        ot \<leftarrow> store ot p_y (pixel_convert plane_Y rgb);
        let k = drop_bit 1 j;
        if is_w_even then do {
          u_tmp \<leftarrow> cell_op AddAssign u_tmp k (pixel_convert plane_U rgb);
          v_tmp \<leftarrow> cell_op AddAssign v_tmp k (pixel_convert plane_V rgb);
          in_u \<leftarrow> load u_tmp k;
          in_v \<leftarrow> load v_tmp k;
          (p_uv, ot) \<leftarrow> set_and_next Tar in_u in_v p_uv ot;
          row420_even Tar in_data in_w (j + 1) (\<not> is_w_even)
            (index + 1, p_y + 1, p_uv, u_tmp, v_tmp, ot)
        } else do {
          u_tmp \<leftarrow> cell_op AddAssign u_tmp k (pixel_convert plane_U rgb);
          v_tmp \<leftarrow> cell_op AddAssign v_tmp k (pixel_convert plane_V rgb);
          row420_even Tar in_data in_w (j + 1) (\<not> is_w_even)
            (index + 1, p_y + 1, p_uv, u_tmp, v_tmp, ot)
        }
      } else Some (index, p_y, p_uv, u_tmp, v_tmp, ot))"
  by pat_completeness auto
termination
  by (relation "measure (\<lambda>(Tar, in_data, in_w, j, is_w_even, st). in_w - j)") auto

function row420_odd ::
  "rgb_t list \<Rightarrow> nat \<Rightarrow> nat \<Rightarrow> bool \<Rightarrow> row_state \<Rightarrow> row_state option" where
  "row420_odd in_data in_w j is_w_even (index, p_y, p_uv, u_tmp, v_tmp, ot) =
     (if j < in_w then do {
        rgb \<leftarrow> load in_data index;
        ot \<leftarrow> store ot p_y (pixel_convert plane_Y rgb);
        let k = drop_bit 1 j;
        if is_w_even then do {
          u_tmp \<leftarrow> cell_op AddAssign u_tmp k (pixel_convert plane_U rgb);
          v_tmp \<leftarrow> cell_op AddAssign v_tmp k (pixel_convert plane_V rgb);
          row420_odd in_data in_w (j + 1) (\<not> is_w_even)
            (index + 1, p_y + 1, p_uv, u_tmp, v_tmp, ot)
        } else do {
          u_tmp \<leftarrow> cell_op Assign u_tmp k (pixel_convert plane_U rgb);
          v_tmp \<leftarrow> cell_op Assign v_tmp k (pixel_convert plane_V rgb);
          row420_odd in_data in_w (j + 1) (\<not> is_w_even)
            (index + 1, p_y + 1, p_uv, u_tmp, v_tmp, ot)
        }
      } else Some (index, p_y, p_uv, u_tmp, v_tmp, ot))"
  by pat_completeness auto
termination
  by (relation "measure (\<lambda>(in_data, in_w, j, is_w_even, st). in_w - j)") auto

function rows420 ::
  "supported \<Rightarrow> rgb_t list \<Rightarrow> nat \<Rightarrow> nat \<Rightarrow> nat \<Rightarrow> bool \<Rightarrow> row_state \<Rightarrow> 8 word list option" where
  "rows420 Tar in_data in_w in_h i is_h_even st =
     (if i < in_h then do {
        let is_w_even = False;
        st \<leftarrow> (if is_h_even then row420_even Tar in_data in_w 0 is_w_even st
               else row420_odd in_data in_w 0 is_w_even st);
        rows420 Tar in_data in_w in_h (i + 1) (\<not> is_h_even) st
      } else Some (snd (snd (snd (snd (snd st))))))"
  by pat_completeness auto
termination
  by (relation "measure (\<lambda>(Tar, in_data, in_w, in_h, i, is_h_even, st). in_h - i)") auto

text \<open>
  The accumulator blocks are allocated for \<^verbatim>\<open>in_w >> 1\<close> cells and not
  initialised; \<open>u_junk\<close> and \<open>v_junk\<close> are what their cells hold then.
\<close>

definition transform_to_420 ::
  "supported \<Rightarrow> rgb_t list \<Rightarrow> nat \<Rightarrow> nat \<Rightarrow> (nat \<Rightarrow> 16 word) \<Rightarrow> (nat \<Rightarrow> 16 word)
   \<Rightarrow> 8 word list \<Rightarrow> 8 word list option" where
  "transform_to_420 Tar in_data in_w in_h u_junk v_junk ot_data =
     (let p_y = split Tar plane_Y 0 in_w in_h;
          p_uv = fill Tar 0 in_w in_h;
          u_tmp = map u_junk [0..<drop_bit 1 in_w];
          v_tmp = map v_junk [0..<drop_bit 1 in_w];
          is_h_even = False
      in rows420 Tar in_data in_w in_h 0 is_h_even (0, p_y, p_uv, u_tmp, v_tmp, ot_data))"

subsection \<open>4:1:0\<close>

text \<open>
  The three inner loops of the \<^verbatim>\<open>switch (h_flag)\<close>: case 1, cases 2 and 3, and
  case 4.  The counters \<^verbatim>\<open>h_flag\<close> and \<^verbatim>\<open>w_flag\<close> stay between 0 and 5.
\<close>

function row410_first ::
  "rgb_t list \<Rightarrow> nat \<Rightarrow> nat \<Rightarrow> nat \<Rightarrow> row_state \<Rightarrow> row_state option" where
  "row410_first in_data in_w j w_flag (index, p_y, p_uv, u_tmp, v_tmp, ot) =
     (if j < in_w then do {
        rgb \<leftarrow> load in_data index;
        ot \<leftarrow> store ot p_y (pixel_convert plane_Y rgb);
        let k = drop_bit 2 j;
        if w_flag = 1 then do {
          u_tmp \<leftarrow> cell_op Assign u_tmp k (pixel_convert plane_U rgb);
          v_tmp \<leftarrow> cell_op Assign v_tmp k (pixel_convert plane_V rgb);
          row410_first in_data in_w (j + 1) (w_flag + 1)
            (index + 1, p_y + 1, p_uv, u_tmp, v_tmp, ot)
        } else do {
          let w_flag = (if w_flag = 4 then 0 else w_flag);
          u_tmp \<leftarrow> cell_op AddAssign u_tmp k (pixel_convert plane_U rgb);
          v_tmp \<leftarrow> cell_op AddAssign v_tmp k (pixel_convert plane_V rgb);
          row410_first in_data in_w (j + 1) (w_flag + 1)
            (index + 1, p_y + 1, p_uv, u_tmp, v_tmp, ot)
        }
      } else Some (index, p_y, p_uv, u_tmp, v_tmp, ot))"
  by pat_completeness auto
termination
  by (relation "measure (\<lambda>(in_data, in_w, j, w_flag, st). in_w - j)") auto

function row410_mid ::
  "rgb_t list \<Rightarrow> nat \<Rightarrow> nat \<Rightarrow> row_state \<Rightarrow> row_state option" where
  "row410_mid in_data in_w j (index, p_y, p_uv, u_tmp, v_tmp, ot) =
     (if j < in_w then do {
        rgb \<leftarrow> load in_data index;
        ot \<leftarrow> store ot p_y (pixel_convert plane_Y rgb);
        let k = drop_bit 2 j;
        u_tmp \<leftarrow> cell_op AddAssign u_tmp k (pixel_convert plane_U rgb);
        v_tmp \<leftarrow> cell_op AddAssign v_tmp k (pixel_convert plane_V rgb);
        row410_mid in_data in_w (j + 1) (index + 1, p_y + 1, p_uv, u_tmp, v_tmp, ot)
      } else Some (index, p_y, p_uv, u_tmp, v_tmp, ot))"
  by pat_completeness auto
termination
  by (relation "measure (\<lambda>(in_data, in_w, j, st). in_w - j)") auto

function row410_last ::
  "supported \<Rightarrow> rgb_t list \<Rightarrow> nat \<Rightarrow> nat \<Rightarrow> nat \<Rightarrow> row_state \<Rightarrow> row_state option" where
  "row410_last Tar in_data in_w j w_flag (index, p_y, p_uv, u_tmp, v_tmp, ot) =
     (if j < in_w then do {
        rgb \<leftarrow> load in_data index;
        ot \<leftarrow> store ot p_y (pixel_convert plane_Y rgb);
        let k = drop_bit 2 j;
        if w_flag = 4 then do {
          u_tmp \<leftarrow> cell_op AddAssign u_tmp k (pixel_convert plane_U rgb);
          v_tmp \<leftarrow> cell_op AddAssign v_tmp k (pixel_convert plane_V rgb);
          in_u \<leftarrow> load u_tmp k;
          in_v \<leftarrow> load v_tmp k;
          (p_uv, ot) \<leftarrow> set_and_next Tar in_u in_v p_uv ot;
          let w_flag = 0;
          row410_last Tar in_data in_w (j + 1) (w_flag + 1)
            (index + 1, p_y + 1, p_uv, u_tmp, v_tmp, ot)
        } else do {
          u_tmp \<leftarrow> cell_op AddAssign u_tmp k (pixel_convert plane_U rgb);
          v_tmp \<leftarrow> cell_op AddAssign v_tmp k (pixel_convert plane_V rgb);
          row410_last Tar in_data in_w (j + 1) (w_flag + 1)
            (index + 1, p_y + 1, p_uv, u_tmp, v_tmp, ot)
        }
      } else Some (index, p_y, p_uv, u_tmp, v_tmp, ot))"
  by pat_completeness auto
termination
  by (relation "measure (\<lambda>(Tar, in_data, in_w, j, w_flag, st). in_w - j)") auto

function rows410 ::
  "supported \<Rightarrow> rgb_t list \<Rightarrow> nat \<Rightarrow> nat \<Rightarrow> nat \<Rightarrow> nat \<Rightarrow> row_state \<Rightarrow> 8 word list option" where
  "rows410 Tar in_data in_w in_h i h_flag st =
     (if i < in_h then do {
        let w_flag = 1;
        (h_flag, st) \<leftarrow>
          (if h_flag = 1 then do {
             st \<leftarrow> row410_first in_data in_w 0 w_flag st; Some (h_flag, st) }
           else if h_flag = 2 \<or> h_flag = 3 then do {
             st \<leftarrow> row410_mid in_data in_w 0 st; Some (h_flag, st) }
           else if h_flag = 4 then do {
             st \<leftarrow> row410_last Tar in_data in_w 0 w_flag st; Some (0, st) }
           else Some (h_flag, st));
        rows410 Tar in_data in_w in_h (i + 1) (h_flag + 1) st
      } else Some (snd (snd (snd (snd (snd st))))))"
  by pat_completeness auto
termination
  by (relation "measure (\<lambda>(Tar, in_data, in_w, in_h, i, h_flag, st). in_h - i)") auto

definition transform_to_410 ::
  "supported \<Rightarrow> rgb_t list \<Rightarrow> nat \<Rightarrow> nat \<Rightarrow> (nat \<Rightarrow> 16 word) \<Rightarrow> (nat \<Rightarrow> 16 word)
   \<Rightarrow> 8 word list \<Rightarrow> 8 word list option" where
  "transform_to_410 Tar in_data in_w in_h u_junk v_junk ot_data =
     (let p_y = split Tar plane_Y 0 in_w in_h;
          p_uv = fill Tar 0 in_w in_h;
          u_tmp = map u_junk [0..<drop_bit 2 in_w];
          v_tmp = map v_junk [0..<drop_bit 2 in_w];
          h_flag = 1
      in rows410 Tar in_data in_w in_h 0 h_flag (0, p_y, p_uv, u_tmp, v_tmp, ot_data))"

section \<open>What the writers are checked against\<close>

text \<open>
  The mean of the specification: the floor of the arithmetic mean of the bytes of
  a block, and its instances for the two chroma channels of a block of pixels.
\<close>

definition mean_bytes :: "8 word list \<Rightarrow> 8 word" where
  "mean_bytes xs = word_of_nat (sum_list (map unat xs) div length xs)"

definition mean_U :: "rgb_t list \<Rightarrow> 8 word" where
  "mean_U ps = mean_bytes (map (pixel_convert plane_U) ps)"

definition mean_V :: "rgb_t list \<Rightarrow> 8 word" where
  "mean_V ps = mean_bytes (map (pixel_convert plane_V) ps)"

text \<open>The consecutive blocks of \<open>g\<close> elements of a list.\<close>

definition chunks :: "nat \<Rightarrow> 'a list \<Rightarrow> 'a list list" where
  "chunks g xs = map (\<lambda>k. take g (drop (k * g) xs)) [0..<length xs div g]"

text \<open>
  The blocks of the \<open>bh\<close> rows that start at pixel \<open>index\<close> of an image of width
  \<open>w\<close>: one block of \<open>bh\<close> rows by \<open>bw\<close> columns for each \<open>bw\<close> columns, its pixels row
  by row; and the blocks of all complete groups of \<open>bh\<close> rows of an image, in
  row-major order.
\<close>

definition block_row :: "nat \<Rightarrow> nat \<Rightarrow> nat \<Rightarrow> 'a list \<Rightarrow> nat \<Rightarrow> 'a list list" where
  "block_row w bh bw xs index =
     map (\<lambda>c. concat (map (\<lambda>dr. take bw (drop (index + dr * w + c * bw) xs)) [0..<bh]))
       [0..<w div bw]"

definition blocks :: "nat \<Rightarrow> nat \<Rightarrow> nat \<Rightarrow> nat \<Rightarrow> 'a list \<Rightarrow> 'a list list" where
  "blocks w h bh bw xs = concat (map (\<lambda>r. block_row w bh bw xs (r * bh * w)) [0..<h div bh])"

text \<open>
  The four-byte group of a pixel pair in each packed 4:2:2 layout, and the
  twelve-byte group of eight pixels in Y41P.
\<close>

fun group422 :: "supported \<Rightarrow> rgb_t list \<Rightarrow> 8 word list" where
  "group422 yuv_YUY2 ps =
     [pixel_convert plane_Y (ps ! 0), mean_U ps, pixel_convert plane_Y (ps ! 1), mean_V ps]"
| "group422 yuv_YVYU ps =
     [pixel_convert plane_Y (ps ! 0), mean_V ps, pixel_convert plane_Y (ps ! 1), mean_U ps]"
| "group422 yuv_UYVY ps =
     [mean_U ps, pixel_convert plane_Y (ps ! 0), mean_V ps, pixel_convert plane_Y (ps ! 1)]"
| "group422 yuv_VYUY ps =
     [mean_V ps, pixel_convert plane_Y (ps ! 0), mean_U ps, pixel_convert plane_Y (ps ! 1)]"

definition group_Y41P :: "rgb_t list \<Rightarrow> 8 word list" where
  "group_Y41P ps =
     [mean_U (take 4 ps), pixel_convert plane_Y (ps ! 0),
      mean_V (take 4 ps), pixel_convert plane_Y (ps ! 1),
      mean_U (drop 4 ps), pixel_convert plane_Y (ps ! 2),
      mean_V (drop 4 ps), pixel_convert plane_Y (ps ! 3),
      pixel_convert plane_Y (ps ! 4), pixel_convert plane_Y (ps ! 5),
      pixel_convert plane_Y (ps ! 6), pixel_convert plane_Y (ps ! 7)]"

text \<open>
  Writing a run of values over a list from position \<open>p\<close> on, and the bytes of a
  planar or semi-planar destination after the luma bytes \<open>ys\<close> went to \<open>p_y\<close> and
  the chroma bytes \<open>us\<close> and \<open>vs\<close> to where \<open>p_uv\<close> points.
\<close>

definition overwrite :: "'a list \<Rightarrow> nat \<Rightarrow> 'a list \<Rightarrow> 'a list" where
  "overwrite ot p vs =
     map (\<lambda>i. if p \<le> i \<and> i < p + length vs then vs ! (i - p) else ot ! i) [0..<length ot]"

definition interleave :: "supported \<Rightarrow> 8 word list \<Rightarrow> 8 word list \<Rightarrow> 8 word list" where
  "interleave S us vs = (if inner_cb S = 0 then List.splice us vs else List.splice vs us)"

fun write_uv :: "supported \<Rightarrow> uv_t \<Rightarrow> 8 word list \<Rightarrow> 8 word list \<Rightarrow> 8 word list \<Rightarrow> 8 word list" where
  "write_uv S (uv_planar cb cr) us vs ot = overwrite (overwrite ot cb us) cr vs"
| "write_uv S (uv_semi uv) us vs ot = overwrite ot uv (interleave S us vs)"

definition emit ::
  "supported \<Rightarrow> nat \<Rightarrow> uv_t \<Rightarrow> 8 word list \<Rightarrow> 8 word list \<Rightarrow> 8 word list \<Rightarrow> 8 word list \<Rightarrow> 8 word list" where
  "emit S p_y p_uv ys us vs ot = write_uv S p_uv us vs (overwrite ot p_y ys)"

fun uv_advance :: "nat \<Rightarrow> uv_t \<Rightarrow> uv_t" where
  "uv_advance n (uv_planar cb cr) = uv_planar (cb + n) (cr + n)"
| "uv_advance n (uv_semi uv) = uv_semi (uv + 2 * n)"

text \<open>
  A destination of \<open>len\<close> bytes has room for \<open>ny\<close> luma bytes at \<open>p_y\<close> and \<open>n\<close>
  chroma pairs at \<open>p_uv\<close>, the luma bytes first and no two regions overlapping;
  and the pointer \<open>p_uv\<close> has the shape that the tag \<open>S\<close> gives it.
\<close>

fun layout_ok :: "nat \<Rightarrow> nat \<Rightarrow> uv_t \<Rightarrow> nat \<Rightarrow> nat \<Rightarrow> bool" where
  "layout_ok p_y ny (uv_planar cb cr) n len =
     (p_y + ny \<le> cb \<and> p_y + ny \<le> cr \<and> (cb + n \<le> cr \<or> cr + n \<le> cb) \<and>
      cb + n \<le> len \<and> cr + n \<le> len)"
| "layout_ok p_y ny (uv_semi uv) n len = (p_y + ny \<le> uv \<and> uv + 2 * n \<le> len)"

fun shape_ok :: "supported \<Rightarrow> uv_t \<Rightarrow> bool" where
  "shape_ok S (uv_planar cb cr) = (S \<in> {yuv_422P, yuv_YV12, yuv_YU12, yuv_411P, yuv_YUV9, yuv_YVU9})"
| "shape_ok S (uv_semi uv) = (S \<in> {yuv_NV12, yuv_NV21})"

fun shift :: "supported \<Rightarrow> nat" where
  "shift yuv_422P = 1"
| "shift yuv_YV12 = 2" | "shift yuv_YU12 = 2" | "shift yuv_411P = 2"
| "shift yuv_NV12 = 2" | "shift yuv_NV21 = 2"
| "shift yuv_YUV9 = 4" | "shift yuv_YVU9 = 4"

text \<open>The accumulator of the writers: bytes added one by one to a 16-bit cell.\<close>

definition acc_add :: "16 word \<Rightarrow> 8 word list \<Rightarrow> 16 word" where
  "acc_add c xs = foldl (\<lambda>a x. a + ucast x) c xs"

definition acc16 :: "8 word list \<Rightarrow> 16 word" where
  "acc16 xs = acc_add 0 xs"

text \<open>
  The rows of the 4:2:0 and 4:1:0 writers work on cells of \<open>g\<close> pixels: a row sets
  each accumulator cell to the sum of its pixels' chroma bytes or adds that sum to
  the cell, and the last row of a block also emits the cell shifted right.
\<close>

definition cell_new :: "assign_op \<Rightarrow> 16 word \<Rightarrow> 8 word list \<Rightarrow> 16 word" where
  "cell_new OP old xs = (case OP of Assign \<Rightarrow> acc16 xs | AddAssign \<Rightarrow> acc_add old xs)"

definition row_cells ::
  "assign_op \<Rightarrow> plane_type \<Rightarrow> nat \<Rightarrow> 16 word list \<Rightarrow> rgb_t list \<Rightarrow> 16 word list" where
  "row_cells OP P g olds R =
     map2 (\<lambda>old c. cell_new OP old (map (pixel_convert P) c)) olds (chunks g R)"

definition row_emits :: "bool \<Rightarrow> nat \<Rightarrow> 16 word list \<Rightarrow> 8 word list" where
  "row_emits emitting sh cells = (if emitting then map (\<lambda>x. shr_byte x sh) cells else [])"

text \<open>
  What the accumulator cells hold after the first \<open>d\<close> rows of a group of rows that
  starts at pixel \<open>index\<close>.
\<close>

definition group_cells :: "plane_type \<Rightarrow> nat \<Rightarrow> nat \<Rightarrow> rgb_t list \<Rightarrow> nat \<Rightarrow> nat \<Rightarrow> 16 word list" where
  "group_cells P w g xs index d =
     map (\<lambda>c. acc16 (map (pixel_convert P)
                  (concat (map (\<lambda>dr. take g (drop (index + dr * w + c * g) xs)) [0..<d]))))
       [0..<w div g]"

text \<open>
  The bytes of a whole planar or semi-planar destination: the luma plane, then the
  chroma planes in the order of the tag, or the plane of interleaved chroma pairs.
\<close>

fun planes :: "supported \<Rightarrow> 8 word list \<Rightarrow> 8 word list \<Rightarrow> 8 word list \<Rightarrow> 8 word list" where
  "planes yuv_422P ys us vs = ys @ us @ vs"
| "planes yuv_411P ys us vs = ys @ us @ vs"
| "planes yuv_YU12 ys us vs = ys @ us @ vs"
| "planes yuv_YV12 ys us vs = ys @ vs @ us"
| "planes yuv_NV12 ys us vs = ys @ List.splice us vs"
| "planes yuv_NV21 ys us vs = ys @ List.splice vs us"
| "planes yuv_YUV9 ys us vs = ys @ us @ vs"
| "planes yuv_YVU9 ys us vs = ys @ vs @ us"


section \<open>Properties of the matrix transform\<close>

lemma int32_id: "\<bar>x\<bar> < 2147483648 \<Longrightarrow> int32 x = x"
  by (simp add: int32_def signed_take_bit_int_eq_self)

lemma uint8_abs: "\<bar>uint (x::8 word)\<bar> \<le> 255"
  using uint_bounded[of x] by simp

lemma clip_clamp: "uint (clip v) = clamp v"
  by (simp add: clip_def clamp_def uint_word_of_int min_def max_def)

lemma mul32_byte:
  assumes "\<bar>k\<bar> \<le> 600"
  shows "mul32 k (uint (x::8 word)) = k * uint x" and "\<bar>k * uint x\<bar> \<le> 153000"
proof -
  have "\<bar>k\<bar> * \<bar>uint x\<bar> \<le> 600 * 255"
    using assms uint8_abs[of x] by (intro mult_mono) simp_all
  then show b: "\<bar>k * uint x\<bar> \<le> 153000" by (simp add: abs_mult)
  then show "mul32 k (uint x) = k * uint x"
    unfolding mul32_def by (intro int32_id) simp
qed

text \<open>
  With coefficients as small as those of the six rows, no intermediate value of
  \<^verbatim>\<open>convertor::convert\<close> leaves the \<^verbatim>\<open>int32_t\<close> range, and the function computes
  the formula on unbounded integers.
\<close>

lemma convert_formula:
  assumes "\<bar>fa cv\<bar> \<le> 600" "\<bar>fb cv\<bar> \<le> 600" "\<bar>fc cv\<bar> \<le> 600"
    and "\<bar>fd cv\<bar> \<le> 80000" "\<bar>fe cv\<bar> \<le> 128"
  shows "uint (convert cv p) =
         matrix_formula (fa cv) (fb cv) (fc cv) (fd cv) (fe cv)
           (uint (pl_a p)) (uint (pl_b p)) (uint (pl_c p))"
proof -
  let ?A = "fa cv * uint (pl_a p)" and ?B = "fb cv * uint (pl_b p)" and ?C = "fc cv * uint (pl_c p)"
  note ma = mul32_byte[OF assms(1), of "pl_a p"]
  note mb = mul32_byte[OF assms(2), of "pl_b p"]
  note mc = mul32_byte[OF assms(3), of "pl_c p"]
  have s1: "add32 ?A ?B = ?A + ?B"
    unfolding add32_def using ma(2) mb(2) by (intro int32_id) linarith
  have s2: "add32 (?A + ?B) ?C = ?A + ?B + ?C"
    unfolding add32_def using ma(2) mb(2) mc(2) by (intro int32_id) linarith
  have b3: "\<bar>?A + ?B + ?C + fd cv\<bar> \<le> 539000"
    using ma(2) mb(2) mc(2) assms(4) by linarith
  have s3: "add32 (?A + ?B + ?C) (fd cv) = ?A + ?B + ?C + fd cv"
    unfolding add32_def using b3 by (intro int32_id) linarith
  have b4: "\<bar>(?A + ?B + ?C + fd cv) div 256\<bar> \<le> 539000"
    using b3 by (smt (verit) div_by_1 pos_imp_zdiv_nonneg_iff zdiv_mono2 zdiv_mono2_neg)
  have s4: "add32 ((?A + ?B + ?C + fd cv) div 256) (fe cv) = (?A + ?B + ?C + fd cv) div 256 + fe cv"
    unfolding add32_def using b4 assms(5) by (intro int32_id) linarith
  show ?thesis
    by (simp add: convert_def ma(1) mb(1) mc(1) s1 s2 s3 s4 sar32_def clip_clamp matrix_formula_def)
qed

lemma pixel_convert_Y:
  "uint (pixel_convert plane_Y p) =
   matrix_formula 66 129 25 128 16 (uint (rgb_r p)) (uint (rgb_g p)) (uint (rgb_b p))"
  using convert_formula[of "factor_matrix ! 0" "cast_rgb p"]
  by (simp add: pixel_convert_def pixel_convert_planes_def factor_matrix_def cast_rgb_def)

lemma pixel_convert_U:
  "uint (pixel_convert plane_U p) =
   matrix_formula (- 38) (- 74) 112 128 128 (uint (rgb_r p)) (uint (rgb_g p)) (uint (rgb_b p))"
  using convert_formula[of "factor_matrix ! 1" "cast_rgb p"]
  by (simp add: pixel_convert_def pixel_convert_planes_def factor_matrix_def cast_rgb_def)

lemma pixel_convert_V:
  "uint (pixel_convert plane_V p) =
   matrix_formula 112 (- 94) (- 18) 128 128 (uint (rgb_r p)) (uint (rgb_g p)) (uint (rgb_b p))"
  using convert_formula[of "factor_matrix ! 2" "cast_rgb p"]
  by (simp add: pixel_convert_def pixel_convert_planes_def factor_matrix_def cast_rgb_def)

text \<open>
  C1, as amended.  For each of the planes Y, U and V and every pixel (each channel
  is a byte, hence in \<open>[0, 255]\<close>), \<^verbatim>\<open>pixel_convert\<close> returns
  \<open>clamp (((a * R + b * G + c * B + d) >> 8) + e)\<close> with the rows
  Y: (66, 129, 25, 128, 16), U: (-38, -74, 112, 128, 128) and
  V: (112, -94, -18, 128, 128); for the pixel (R, G, B) = (255, 0, 0) it returns
  Y = 82, U = 90 and V = 240.
\<close>

theorem pixel_convert_matrix:
  "uint (pixel_convert plane_Y p) =
     matrix_formula 66 129 25 128 16 (uint (rgb_r p)) (uint (rgb_g p)) (uint (rgb_b p)) \<and>
   uint (pixel_convert plane_U p) =
     matrix_formula (- 38) (- 74) 112 128 128 (uint (rgb_r p)) (uint (rgb_g p)) (uint (rgb_b p)) \<and>
   uint (pixel_convert plane_V p) =
     matrix_formula 112 (- 94) (- 18) 128 128 (uint (rgb_r p)) (uint (rgb_g p)) (uint (rgb_b p)) \<and>
   pixel_convert plane_Y \<lparr>rgb_b = 0, rgb_g = 0, rgb_r = 255\<rparr> = 82 \<and>
   pixel_convert plane_U \<lparr>rgb_b = 0, rgb_g = 0, rgb_r = 255\<rparr> = 90 \<and>
   pixel_convert plane_V \<lparr>rgb_b = 0, rgb_g = 0, rgb_r = 255\<rparr> = 240"
proof -
  have "pixel_convert plane_Y \<lparr>rgb_b = 0, rgb_g = 0, rgb_r = 255\<rparr> = 82"
    by code_simp
  moreover have "pixel_convert plane_U \<lparr>rgb_b = 0, rgb_g = 0, rgb_r = 255\<rparr> = 90"
    by code_simp
  moreover have "pixel_convert plane_V \<lparr>rgb_b = 0, rgb_g = 0, rgb_r = 255\<rparr> = 240"
    by code_simp
  ultimately show ?thesis
    using pixel_convert_Y[of p] pixel_convert_U[of p] pixel_convert_V[of p] by blast
qed

text \<open>
  C1 as stated gives Y = 81 for the pixel (255, 0, 0); the code returns 82, since
  \<open>(66 * 255 + 128) >> 8 = 66\<close>.
\<close>

theorem pixel_convert_red_counterexample:
  "pixel_convert plane_Y \<lparr>rgb_b = 0, rgb_g = 0, rgb_r = 255\<rparr> \<noteq> 81"
  by code_simp

section \<open>Properties of the buffer sizes\<close>

lemma and_mask_dvd:
  "(s::size_t) AND 1 = 0 \<longleftrightarrow> 2 dvd unat s"
  "(s::size_t) AND 3 = 0 \<longleftrightarrow> 4 dvd unat s"
  "(s::size_t) AND 7 = 0 \<longleftrightarrow> 8 dvd unat s"
  "(s::size_t) AND 15 = 0 \<longleftrightarrow> 16 dvd unat s"
  using and_mask_dvd_nat[of 1 s] and_mask_dvd_nat[of 2 s]
    and_mask_dvd_nat[of 3 s] and_mask_dvd_nat[of 4 s]
  by (simp_all add: mask_eq_exp_minus_1)

lemma calculate_size_word:
  assumes "divisor S dvd unat (in_w * in_h)"
  shows "calculate_size S in_w in_h = Inr (required_bytes S (in_w * in_h))"
  using assms
  by (cases S)
     (simp_all add: size_rgb_888_def size_rgb_565_def size_rgb_444_def size_rgb_888X_def
        size_yuv_NV24_def size_yuv_YUY2_def size_yuv_Y41P_def size_yuv_411P_def
        size_yuv_YVU9_def and_mask_dvd drop_bit_eq_div push_bit_eq_mult Let_def)

lemma required_bytes_unat_pixels:
  assumes "unat (p::size_t) * 4 < 2 ^ 64"
  shows "unat (required_bytes S p) = required_bytes_nat S (unat p)"
proof -
  let ?N = "18446744073709551616::nat"
  have n: "unat p * 4 < ?N" using assms by simp
  have m2: "unat p * 2 mod ?N = unat p * 2" using n by (intro mod_less) linarith
  have m3: "unat p * 3 mod ?N = unat p * 3" using n by (intro mod_less) linarith
  have m4: "unat p * 4 mod ?N = unat p * 4" using n by (intro mod_less) linarith
  have m31: "Suc (unat p * 3) mod ?N = Suc (unat p * 3)" using n by (intro mod_less) linarith
  have a2: "(unat p + unat p div 2) mod ?N = unat p + unat p div 2"
    using n by (intro mod_less) linarith
  have a8: "(unat p + unat p div 8) mod ?N = unat p + unat p div 8"
    using n by (intro mod_less) linarith
  have d2: "unat p div 2 mod ?N = unat p div 2" using n by (intro mod_less) linarith
  have d8: "unat p div 8 mod ?N = unat p div 8" using n by (intro mod_less) linarith
  have d31: "Suc (unat p * 3) div 2 mod ?N = Suc (unat p * 3) div 2"
    using n by (intro mod_less) linarith
  show ?thesis
    by (cases S) (simp_all add: unat_word_ariths unat_div m2 m3 m4 m31 a2 a8 d2 d8 d31)
qed

lemma required_bytes_unat:
  assumes "unat in_w * unat in_h * 4 < 2 ^ 64"
  shows "unat (required_bytes S (in_w * in_h)) = required_bytes_nat S (unat in_w * unat in_h)"
proof -
  let ?n = "unat in_w * unat in_h"
  have n: "?n * 4 < 18446744073709551616" using assms by simp
  then have "?n mod 18446744073709551616 = ?n"
    by (intro mod_less) linarith
  then have s: "unat (in_w * in_h) = ?n"
    by (simp add: unat_word_ariths)
  show ?thesis
    using required_bytes_unat_pixels[of "in_w * in_h" S] assms unfolding s by simp
qed

text \<open>
  C3.  For every format tag and every width and height whose pixel count (the
  \<^verbatim>\<open>size_t\<close> product) satisfies the tag's divisibility precondition,
  \<^verbatim>\<open>calculate_size\<close> returns the formula of the table, computed in \<^verbatim>\<open>size_t\<close>
  arithmetic; where four times the pixel count fits a \<^verbatim>\<open>size_t\<close>, that is the
  formula on natural numbers.  The witness is 640 by 480 in YU12: 460800 bytes.
\<close>

theorem calculate_size_formula:
  assumes "divisor S dvd unat (in_w * in_h)"
  shows "calculate_size S in_w in_h = Inr (required_bytes S (in_w * in_h)) \<and>
         (unat in_w * unat in_h * 4 < 2 ^ 64 \<longrightarrow>
            unat (required_bytes S (in_w * in_h)) = required_bytes_nat S (unat in_w * unat in_h))"
  using calculate_size_word[OF assms] required_bytes_unat[of in_w in_h S] by blast

theorem calculate_size_formula_witness:
  "divisor yuv_YU12 dvd unat (640 * 480 :: size_t) \<and>
   unat (640 :: size_t) * unat (480 :: size_t) * 4 < 2 ^ 64 \<and>
   calculate_size yuv_YU12 640 480 = Inr 460800 \<and>
   required_bytes_nat yuv_YU12 (640 * 480) = 460800"
proof -
  have h: "divisor yuv_YU12 dvd unat (640 * 480 :: size_t)" by simp
  from calculate_size_formula[OF h] show ?thesis by simp
qed

section \<open>Properties of the memory block\<close>

lemma reset_count_fields:
  "data (fst (reset_count T cnt this h)) = fst (alloc (cnt * sizeof T) (destructor this h))"
  "count (fst (reset_count T cnt this h)) = cnt"
  "is_trusted (fst (reset_count T cnt this h))"
  by (simp_all add: reset_count_def Let_def size_bytes_def count_def data_def is_trusted_def
      split: prod.splits)

lemma destructor_initial: "destructor initial h = h"
  by (simp add: destructor_def initial_def)

lemma alloc_zero: "alloc 0 h = (NULL, h)"
  by (simp add: alloc_def)

text \<open>
  C6, as amended.  When allocation fails (the allocator returns null, as it does
  for a requested byte size of zero), a \<^verbatim>\<open>scope_block\<close> reset or constructed with a
  requested element count holds a null data pointer and the requested element
  count (\<^verbatim>\<open>data() == NULL\<close> and \<^verbatim>\<open>count()\<close> is the count requested), and it is
  marked as trusted; no exception is thrown: both operations return a block.
\<close>

theorem alloc_fails_null_block:
  "(fst (alloc (cnt * sizeof T) (destructor this h)) = NULL \<longrightarrow>
      data (fst (reset_count T cnt this h)) = NULL \<and>
      count (fst (reset_count T cnt this h)) = cnt \<and>
      is_trusted (fst (reset_count T cnt this h))) \<and>
   (fst (alloc (cnt * sizeof T) h) = NULL \<longrightarrow>
      data (fst (scope_block_count T cnt h)) = NULL \<and>
      count (fst (scope_block_count T cnt h)) = cnt \<and>
      is_trusted (fst (scope_block_count T cnt h))) \<and>
   fst (alloc 0 h) = NULL"
  unfolding scope_block_count_def
  by (simp add: reset_count_fields destructor_initial alloc_zero)

theorem alloc_fails_null_block_witness:
  "fst (alloc (100 * sizeof elem_byte)
         (destructor \<lparr>sb_block = Ptr 16, sb_count = 4, sb_trust = True\<rparr>
            \<lparr>pending = [NULL], freed = []\<rparr>)) = NULL \<and>
   fst (reset_count elem_byte 100 \<lparr>sb_block = Ptr 16, sb_count = 4, sb_trust = True\<rparr>
         \<lparr>pending = [NULL], freed = []\<rparr>) =
     \<lparr>sb_block = NULL, sb_count = 100, sb_trust = True\<rparr> \<and>
   fst (alloc (100 * sizeof elem_byte) \<lparr>pending = [], freed = []\<rparr>) = NULL \<and>
   fst (scope_block_count elem_byte 100 \<lparr>pending = [], freed = []\<rparr>) =
     \<lparr>sb_block = NULL, sb_count = 100, sb_trust = True\<rparr>"
  using alloc_fails_null_block[of 100 elem_byte
      "\<lparr>sb_block = Ptr 16, sb_count = 4, sb_trust = True\<rparr>" "\<lparr>pending = [NULL], freed = []\<rparr>"]
    alloc_fails_null_block[of 100 elem_byte initial "\<lparr>pending = [], freed = []\<rparr>"]
  by (simp add: alloc_def operator_new_def destructor_def free_def operator_delete_def
      reset_count_def scope_block_count_def initial_def size_bytes_def count_def Let_def)

text \<open>
  C6 as stated wants a zero element count after a failed allocation; a block
  constructed for 100 bytes on an exhausted memory reports 100 elements.
\<close>

theorem alloc_fails_count_counterexample:
  "fst (alloc (100 * sizeof elem_byte) \<lparr>pending = [], freed = []\<rparr>) = NULL \<and>
   data (fst (scope_block_count elem_byte 100 \<lparr>pending = [], freed = []\<rparr>)) = NULL \<and>
   count (fst (scope_block_count elem_byte 100 \<lparr>pending = [], freed = []\<rparr>)) \<noteq> 0"
  by (simp add: alloc_def operator_new_def destructor_def
      reset_count_def scope_block_count_def initial_def size_bytes_def count_def data_def Let_def)

lemma swap_U_fields:
  "sb_block (fst (swap_U T U this rhs)) = sb_block rhs"
  "sb_block (snd (swap_U T U this rhs)) = sb_block this"
  "sb_count (fst (swap_U T U this rhs)) = size_bytes U rhs div sizeof T"
  "sb_count (snd (swap_U T U this rhs)) = size_bytes T this div sizeof U"
  "sb_trust (fst (swap_U T U this rhs)) = sb_trust rhs"
  "sb_trust (snd (swap_U T U this rhs)) = sb_trust this"
  by (simp_all add: swap_U_def Let_def size_bytes_def count_def)

lemma swap_fields:
  "sb_block (fst (swap this rhs)) = sb_block rhs"
  "sb_block (snd (swap this rhs)) = sb_block this"
  "sb_count (fst (swap this rhs)) = sb_count rhs"
  "sb_count (snd (swap this rhs)) = sb_count this"
  "sb_trust (fst (swap this rhs)) = sb_trust rhs"
  "sb_trust (snd (swap this rhs)) = sb_trust this"
  by (simp_all add: swap_def)

lemma word_div_mult_round: "(x::size_t) div k * k = x - x mod k"
  by (simp add: minus_mod_eq_div_mult)

text \<open>
  C7, as amended.  After the cross-type \<^verbatim>\<open>swap\<close>, each block holds the other's
  memory, and the byte size \<^verbatim>\<open>count() * sizeof(element)\<close> it reports for that
  memory is the byte size the memory had in its previous holder rounded down to
  a multiple of the new element size; the two are equal exactly when the new
  element size divides the previous byte size.
\<close>

theorem swap_U_byte_size:
  "data (fst (swap_U T U this rhs)) = data rhs \<and>
   data (snd (swap_U T U this rhs)) = data this \<and>
   size_bytes T (fst (swap_U T U this rhs)) = size_bytes U rhs - size_bytes U rhs mod sizeof T \<and>
   size_bytes U (snd (swap_U T U this rhs)) = size_bytes T this - size_bytes T this mod sizeof U \<and>
   (size_bytes T (fst (swap_U T U this rhs)) = size_bytes U rhs) =
     (size_bytes U rhs mod sizeof T = 0) \<and>
   (size_bytes U (snd (swap_U T U this rhs)) = size_bytes T this) =
     (size_bytes T this mod sizeof U = 0)"
proof -
  have a: "size_bytes T (fst (swap_U T U this rhs)) = size_bytes U rhs - size_bytes U rhs mod sizeof T"
    using word_div_mult_round[of "size_bytes U rhs" "sizeof T"]
    by (simp add: size_bytes_def[of T] count_def swap_U_fields)
  have b: "size_bytes U (snd (swap_U T U this rhs)) = size_bytes T this - size_bytes T this mod sizeof U"
    using word_div_mult_round[of "size_bytes T this" "sizeof U"]
    by (simp add: size_bytes_def[of U] count_def swap_U_fields)
  show ?thesis
    unfolding a b by (simp add: data_def swap_U_fields)
qed

text \<open>
  C7 as stated fails where the element size does not divide the byte size: four
  bytes moved into a block of three-byte pixels are reported as three.
\<close>

theorem swap_U_byte_size_counterexample:
  "size_bytes elem_byte \<lparr>sb_block = Ptr 16, sb_count = 4, sb_trust = True\<rparr> = 4 \<and>
   data (fst (swap_U elem_rgb elem_byte initial \<lparr>sb_block = Ptr 16, sb_count = 4, sb_trust = True\<rparr>))
     = Ptr 16 \<and>
   size_bytes elem_rgb
     (fst (swap_U elem_rgb elem_byte initial \<lparr>sb_block = Ptr 16, sb_count = 4, sb_trust = True\<rparr>))
     = 3"
  by (simp add: swap_U_def Let_def size_bytes_def count_def data_def initial_def)

lemma move_fields:
  "sb_block (fst (move T U this rhs)) = sb_block rhs"
  "sb_block (snd (move T U this rhs)) = sb_block this"
  "sb_trust (fst (move T U this rhs)) = sb_trust rhs"
  "sb_trust (snd (move T U this rhs)) = sb_trust this"
  by (simp_all add: move_def swap_fields swap_U_fields)

lemma destructor_not_trusted: "\<not> is_trusted this \<Longrightarrow> destructor this h = h"
  by (simp add: destructor_def is_trusted_def)

lemma reset_block_not_trusted: "\<not> is_trusted (fst (reset_block block cnt this h))"
  by (simp add: reset_block_def Let_def is_trusted_def)

text \<open>
  C8.  Moving an owned block \<open>A\<close> into a freshly initialised block (as the
  converting constructor does) leaves \<open>A\<close> without ownership, so that its destructor
  changes nothing, and gives the new block the memory and the ownership: its
  destructor hands the memory to the allocator's \<^verbatim>\<open>free\<close>, and after both
  destructors a non-null block has been freed exactly once.  The destructor of a
  block that is not trusted (borrowed, or moved from) is a no-op.
\<close>

theorem move_transfers_ownership:
  assumes "is_trusted A"
  shows "\<not> is_trusted (snd (move T U initial A)) \<and>
         destructor (snd (move T U initial A)) h = h \<and>
         is_trusted (fst (move T U initial A)) \<and>
         data (fst (move T U initial A)) = data A \<and>
         destructor (fst (move T U initial A)) h = free (data A) h \<and>
         (data A \<noteq> NULL \<longrightarrow>
            freed (destructor (fst (move T U initial A))
                     (destructor (snd (move T U initial A)) h)) = freed h @ [data A]) \<and>
         (\<not> is_trusted B \<longrightarrow> destructor B h = h) \<and>
         destructor (fst (scope_block_block block cnt h)) h' = h'"
proof -
  let ?B = "fst (move T U initial A)" and ?A = "snd (move T U initial A)"
  have a: "\<not> is_trusted ?A"
    by (simp add: is_trusted_def move_fields initial_def)
  have b: "is_trusted ?B" "data ?B = data A"
    using assms by (simp_all add: is_trusted_def data_def move_fields)
  have da: "destructor ?A h = h" using a by (rule destructor_not_trusted)
  have db: "destructor ?B h = free (data A) h"
    using b by (simp add: destructor_def is_trusted_def data_def)
  have f: "data A \<noteq> NULL \<longrightarrow> freed (destructor ?B (destructor ?A h)) = freed h @ [data A]"
    unfolding da db by (simp add: free_def operator_delete_def)
  have g: "destructor (fst (scope_block_block block cnt h)) h' = h'"
    unfolding scope_block_block_def
    by (rule destructor_not_trusted) (rule reset_block_not_trusted)
  show ?thesis using a b da db f g destructor_not_trusted[of B h] by blast
qed

theorem move_transfers_ownership_witness:
  "is_trusted \<lparr>sb_block = Ptr 16, sb_count = 6, sb_trust = True\<rparr> \<and>
   move elem_rgb elem_byte initial \<lparr>sb_block = Ptr 16, sb_count = 6, sb_trust = True\<rparr> =
     (\<lparr>sb_block = Ptr 16, sb_count = 2, sb_trust = True\<rparr>,
      \<lparr>sb_block = NULL, sb_count = 0, sb_trust = False\<rparr>) \<and>
   destructor \<lparr>sb_block = NULL, sb_count = 0, sb_trust = False\<rparr> \<lparr>pending = [], freed = []\<rparr> =
     \<lparr>pending = [], freed = []\<rparr> \<and>
   destructor \<lparr>sb_block = Ptr 16, sb_count = 2, sb_trust = True\<rparr> \<lparr>pending = [], freed = []\<rparr> =
     \<lparr>pending = [], freed = [Ptr 16]\<rparr>"
proof -
  have h: "is_trusted \<lparr>sb_block = Ptr 16, sb_count = 6, sb_trust = True\<rparr>"
    by (simp add: is_trusted_def)
  have e: "move elem_rgb elem_byte initial \<lparr>sb_block = Ptr 16, sb_count = 6, sb_trust = True\<rparr> =
     (\<lparr>sb_block = Ptr 16, sb_count = 2, sb_trust = True\<rparr>,
      \<lparr>sb_block = NULL, sb_count = 0, sb_trust = False\<rparr>)"
    by (simp add: move_def swap_U_def Let_def size_bytes_def count_def initial_def)
  from move_transfers_ownership[OF h, of elem_rgb elem_byte "\<lparr>pending = [], freed = []\<rparr>"]
  show ?thesis
    unfolding e by (simp add: h data_def free_def operator_delete_def)
qed

section \<open>Properties of the writers\<close>

declare packed422_loop.simps [simp del] y41p_loop.simps [simp del]
  planar422_loop.simps [simp del] planar411_loop.simps [simp del]
  row420_even.simps [simp del] row420_odd.simps [simp del] rows420.simps [simp del]
  row410_first.simps [simp del] row410_mid.simps [simp del] row410_last.simps [simp del]
  rows410.simps [simp del]

subsection \<open>Loads, stores and overwritten runs\<close>

lemma load_Some: "i < length xs \<Longrightarrow> load xs i = Some (xs ! i)"
  by (simp add: load_def)

lemma store_Some: "i < length xs \<Longrightarrow> store xs i v = Some (xs[i := v])"
  by (simp add: store_def)

lemma length_overwrite [simp]: "length (overwrite ot p vs) = length ot"
  by (simp add: overwrite_def)

lemma nth_overwrite:
  "i < length ot \<Longrightarrow>
   overwrite ot p vs ! i = (if p \<le> i \<and> i < p + length vs then vs ! (i - p) else ot ! i)"
  by (simp add: overwrite_def)

lemma overwrite_Nil [simp]: "overwrite ot p [] = ot"
  by (auto intro!: nth_equalityI simp: nth_overwrite)

lemma update_overwrite: "p < length ot \<Longrightarrow> ot[p := v] = overwrite ot p [v]"
  by (auto intro!: nth_equalityI simp: nth_overwrite nth_list_update)

lemma overwrite_append:
  "overwrite (overwrite ot p a) (p + length a) b = overwrite ot p (a @ b)"
  by (auto intro!: nth_equalityI simp: nth_overwrite nth_append)

lemma overwrite_commute:
  "p + length a \<le> q \<or> q + length b \<le> p \<Longrightarrow>
   overwrite (overwrite ot p a) q b = overwrite (overwrite ot q b) p a"
  by (auto intro!: nth_equalityI simp: nth_overwrite)

lemma overwrite_eq_append:
  "p + length vs \<le> length ot \<Longrightarrow> overwrite ot p vs = take p ot @ vs @ drop (p + length vs) ot"
  by (auto intro!: nth_equalityI simp: nth_overwrite nth_append)

lemma overwrite_append_at:
  "q = p + length a \<Longrightarrow> overwrite (overwrite ot p a) q b = overwrite ot p (a @ b)"
  by (simp add: overwrite_append)

lemma store_overwrite: "p < length ot \<Longrightarrow> store ot p v = Some (overwrite ot p [v])"
  by (simp add: store_Some update_overwrite)

lemma store_overwrite_next:
  "p + length a < length ot \<Longrightarrow>
   store (overwrite ot p a) (p + length a) v = Some (overwrite ot p (a @ [v]))"
  by (simp add: store_overwrite overwrite_append)

subsection \<open>Chroma pointers\<close>

lemma length_write_uv [simp]: "length (write_uv S uv us vs ot) = length ot"
  by (cases uv) simp_all

lemma length_emit [simp]: "length (emit S py uv ys us vs ot) = length ot"
  by (simp add: emit_def)

lemma uv_advance_0 [simp]: "uv_advance 0 uv = uv"
  by (cases uv) simp_all

lemma uv_advance_add: "uv_advance a (uv_advance b uv) = uv_advance (b + a) uv"
  by (cases uv) simp_all

lemma shape_ok_advance [simp]: "shape_ok S (uv_advance n uv) = shape_ok S uv"
  by (cases uv) simp_all

lemma write_uv_Nil [simp]: "write_uv S uv [] [] ot = ot"
  by (cases uv) (simp_all add: interleave_def)

lemma emit_Nil [simp]: "emit S py uv ys [] [] ot = overwrite ot py ys"
  by (simp add: emit_def)

lemma splice_append:
  "length us = length vs \<Longrightarrow> List.splice (us @ us') (vs @ vs') = List.splice us vs @ List.splice us' vs'"
  by (induction us vs rule: list_induct2) simp_all

lemma length_splice_eq: "length us = length vs \<Longrightarrow> length (List.splice us vs) = 2 * length us"
  by (induction us vs rule: list_induct2) simp_all

lemma interleave_append:
  "length us = length vs \<Longrightarrow>
   interleave S (us @ us') (vs @ vs') = interleave S us vs @ interleave S us' vs'"
  by (simp add: interleave_def splice_append)

lemma length_interleave: "length us = length vs \<Longrightarrow> length (interleave S us vs) = 2 * length us"
  by (simp add: interleave_def length_splice_eq)

lemma write_uv_append:
  assumes "length us = length vs"
    and "layout_ok py 0 uv (length us + length us') len"
  shows "write_uv S (uv_advance (length us) uv) us' vs' (write_uv S uv us vs ot) =
         write_uv S uv (us @ us') (vs @ vs') ot"
proof (cases uv)
  case (uv_planar cb cr)
  let ?X = "overwrite ot cb us"
  have sep: "cr + length vs \<le> cb + length us \<or> cb + length us + length us' \<le> cr"
    using assms uv_planar by auto
  have "overwrite (overwrite (overwrite ?X cr vs) (cb + length us) us') (cr + length vs) vs' =
        overwrite (overwrite (overwrite ?X (cb + length us) us') cr vs) (cr + length vs) vs'"
    by (simp only: overwrite_commute[OF sep])
  also have "\<dots> = overwrite (overwrite ?X (cb + length us) us') cr (vs @ vs')"
    by (simp only: overwrite_append)
  also have "\<dots> = overwrite (overwrite ot cb (us @ us')) cr (vs @ vs')"
    by (simp only: overwrite_append)
  finally show ?thesis
    unfolding uv_planar uv_advance.simps write_uv.simps assms(1)[symmetric] .
next
  case (uv_semi uv')
  have "overwrite (overwrite ot uv' (interleave S us vs)) (uv' + length (interleave S us vs))
          (interleave S us' vs') = overwrite ot uv' (interleave S (us @ us') (vs @ vs'))"
    by (simp only: overwrite_append interleave_append[OF assms(1)])
  then show ?thesis
    unfolding uv_semi uv_advance.simps write_uv.simps length_interleave[OF assms(1)] .
qed

lemma overwrite_write_uv_commute:
  assumes "length us = length vs" and "layout_ok py (length ys) uv (length us) len"
  shows "overwrite (write_uv S uv us vs ot) py ys = write_uv S uv us vs (overwrite ot py ys)"
proof (cases uv)
  case (uv_planar cb cr)
  then show ?thesis
    using assms
    by (simp add: overwrite_commute[of cr vs py ys] overwrite_commute[of cb us py ys])
next
  case (uv_semi uv')
  then show ?thesis
    using assms by (simp add: overwrite_commute[of uv' _ py ys] length_interleave)
qed

lemma layout_ok_mono:
  assumes "layout_ok py (a + b) uv (n + k) len"
  shows "layout_ok py a uv n len" and "layout_ok (py + a) b (uv_advance n uv) k len"
    and "layout_ok py 0 uv (n + k) len" and "layout_ok (py + a) b uv n len"
  using assms by (cases uv; auto)+

text \<open>
  What a stretch of a writer leaves behind, on top of what an earlier stretch left:
  the two stretches in one.
\<close>

lemma emit_append:
  assumes "length us = length vs"
    and "layout_ok py (length ys + length ys') uv (length us + length us') len"
  shows "emit S (py + length ys) (uv_advance (length us) uv) ys' us' vs' (emit S py uv ys us vs ot) =
         emit S py uv (ys @ ys') (us @ us') (vs @ vs') ot"
proof -
  have "overwrite (write_uv S uv us vs (overwrite ot py ys)) (py + length ys) ys' =
        write_uv S uv us vs (overwrite (overwrite ot py ys) (py + length ys) ys')"
    by (rule overwrite_write_uv_commute[OF assms(1) layout_ok_mono(4)[OF assms(2)]])
  also have "\<dots> = write_uv S uv us vs (overwrite ot py (ys @ ys'))"
    by (simp only: overwrite_append)
  finally show ?thesis
    unfolding emit_def
    by (simp only: write_uv_append[OF assms(1) layout_ok_mono(3)[OF assms(2)]])
qed

lemma emit_append_at:
  assumes "length ys = a" "length ys' = b" "length us = n" "length vs = n" "length us' = k"
    and "py' = py + a" and "uv' = uv_advance n uv"
    and "layout_ok py (a + b) uv (n + k) len"
  shows "emit S py' uv' ys' us' vs' (emit S py uv ys us vs ot) =
         emit S py uv (ys @ ys') (us @ us') (vs @ vs') ot"
  using assms emit_append[of us vs py ys ys' uv us' len S vs' ot] by simp

subsection \<open>The 16-bit accumulators do not wrap\<close>

lemma unat_byte_le: "unat (a::8 word) \<le> 255"
  using unsigned_less[of a, where 'a=nat] by simp

lemma unat_ucast_8_16: "unat (ucast (a::8 word) :: 16 word) = unat a"
  using unat_byte_le[of a] by (simp add: unsigned_ucast_eq take_bit_nat_eq_self)

lemma sum_bytes_le: "sum_list (map unat (xs::8 word list)) \<le> 255 * length xs"
proof (induction xs)
  case Nil
  show ?case by simp
next
  case (Cons x xs)
  then show ?case using unat_byte_le[of x] by simp
qed

lemma acc_add_snoc: "acc_add c (xs @ [x]) = acc_add c xs + ucast x"
  by (simp add: acc_add_def)

lemma acc_add_append: "acc_add (acc_add c xs) ys = acc_add c (xs @ ys)"
  by (simp add: acc_add_def)

lemma acc_add_Nil [simp]: "acc_add c [] = c"
  by (simp add: acc_add_def)

lemma unat_acc16:
  "length xs \<le> 257 \<Longrightarrow> unat (acc16 xs) = sum_list (map unat xs)"
proof (induction xs rule: rev_induct)
  case Nil
  show ?case by (simp add: acc16_def)
next
  case (snoc x xs)
  have "sum_list (map unat (xs @ [x])) \<le> 255 * length (xs @ [x])"
    by (rule sum_bytes_le)
  with snoc.prems have b: "sum_list (map unat xs) + unat x < 65536" by simp
  have "unat (acc16 xs) = sum_list (map unat xs)" using snoc by simp
  with b show ?case
    by (simp add: acc16_def acc_add_snoc unat_word_ariths unat_ucast_8_16)
qed

lemma mean_bytes_le: "sum_list (map unat (xs::8 word list)) div length xs \<le> 255"
proof (cases "xs = []")
  case True
  then show ?thesis by simp
next
  case False
  then have "0 < length xs" by simp
  have "sum_list (map unat xs) div length xs \<le> (255 * length xs) div length xs"
    by (intro div_le_mono sum_bytes_le)
  also have "\<dots> = 255" using \<open>0 < length xs\<close> by simp
  finally show ?thesis .
qed

lemma unat_mean_bytes: "unat (mean_bytes xs) = sum_list (map unat xs) div length xs"
  using mean_bytes_le[of xs] by (simp add: mean_bytes_def unat_of_nat)

lemma shr_byte_mean:
  assumes "length xs = 2 ^ n" "n \<le> 8"
  shows "shr_byte (acc16 xs) n = mean_bytes xs"
proof -
  have "(2::nat) ^ n \<le> 2 ^ 8" using assms(2) by (intro power_increasing) simp_all
  then have "length xs \<le> 257" using assms(1) by simp
  then have "unat (acc16 xs) = sum_list (map unat xs)" by (rule unat_acc16)
  moreover have "unat (drop_bit n (acc16 xs)) = unat (acc16 xs) div 2 ^ n"
    by (metis drop_bit_eq_div unat_drop_bit_eq)
  ultimately have "unat (drop_bit n (acc16 xs)) = sum_list (map unat xs) div length xs"
    by (simp add: assms(1))
  then have "unat (ucast (drop_bit n (acc16 xs)) :: 8 word) = unat (mean_bytes xs)"
    using mean_bytes_le[of xs]
    by (simp add: unsigned_ucast_eq take_bit_nat_eq_self unat_mean_bytes)
  then show ?thesis unfolding shr_byte_def by (rule unsigned_word_eqI)
qed

lemma apply_op_Assign: "apply_op Assign c x = acc16 [x]"
  by (simp add: apply_op_def acc16_def acc_add_def)

lemma apply_op_AddAssign: "apply_op AddAssign c x = acc_add c [x]"
  by (simp add: apply_op_def acc_add_def)

lemma apply_op_acc16: "apply_op AddAssign (acc16 xs) x = acc16 (xs @ [x])"
  by (simp add: apply_op_def acc16_def acc_add_snoc)

lemma cell_op_Some:
  "k < length tmp \<Longrightarrow> cell_op OP tmp k x = Some (tmp[k := apply_op OP (tmp ! k) x])"
  by (simp add: cell_op_def load_Some store_Some)

subsection \<open>One chroma pair, one pixel\<close>

lemma set_and_next_emit:
  assumes "shape_ok S uv" and "layout_ok py 0 uv 1 (length ot)"
  shows "set_and_next S in_u in_v uv ot =
         Some (uv_advance 1 uv, write_uv S uv [shr_byte in_u (shift S)] [shr_byte in_v (shift S)] ot)"
proof (cases uv)
  case (uv_planar cb cr)
  then have b: "cb < length ot" "cr < length ot" using assms(2) by simp_all
  have "ot[cb := x, cr := y] = overwrite (overwrite ot cb [x]) cr [y]" for x y
    using b by (simp add: update_overwrite)
  then show ?thesis
    using assms(1) uv_planar b by (auto simp: store_Some)
next
  case (uv_semi uv')
  then have b: "uv' + 1 < length ot" using assms(2) by simp
  have "ot[uv' := x, uv' + 1 := y] = overwrite ot uv' [x, y]"
       "ot[uv' + 1 := y, uv' := x] = overwrite ot uv' [x, y]" for x y
    using b by (auto intro!: nth_equalityI simp: nth_overwrite nth_list_update nth_Cons')
  then show ?thesis
    using assms(1) uv_semi b by (auto simp: store_Some interleave_def)
qed

lemma planar_pixel_Some:
  assumes "i < length in_data" "py < length ot"
  shows "planar_pixel OP in_data i py u_k v_k ot =
         Some (apply_op OP u_k (pixel_convert plane_U (in_data ! i)),
               apply_op OP v_k (pixel_convert plane_V (in_data ! i)),
               overwrite ot py [pixel_convert plane_Y (in_data ! i)])"
  using assms by (simp add: planar_pixel_def load_Some store_overwrite)

subsection \<open>Blocks of a list\<close>

lemma take_chunk_Suc:
  "take (g * Suc n) (drop i xs) = take g (drop i xs) @ take (g * n) (drop (i + g) xs)"
  by (simp add: take_add add.commute)

lemma chunks_Cons:
  assumes "length a = g" "0 < g"
  shows "chunks g (a @ b) = a # chunks g b"
proof -
  have d: "(length a + length b) div g = Suc (length b div g)"
    using assms div_add_self1[of g "length b"] by simp
  have "map (\<lambda>k. take g (drop (k * g) (a @ b))) [0..<Suc (length b div g)] =
        a # map (\<lambda>k. take g (drop (k * g) b)) [0..<length b div g]"
    using assms by (simp add: map_upt_Suc del: upt_Suc)
  then show ?thesis by (simp add: chunks_def d)
qed

lemma chunks_Nil [simp]: "chunks g [] = []"
  by (simp add: chunks_def)

lemma length_chunks: "length xs = g * n \<Longrightarrow> 0 < g \<Longrightarrow> length (chunks g xs) = n"
  by (simp add: chunks_def)

lemma take2_nth: "i + 2 \<le> length xs \<Longrightarrow> take 2 (drop i xs) = [xs ! i, xs ! (i + 1)]"
  by (auto intro!: nth_equalityI simp: nth_Cons' less_Suc_eq numeral_2_eq_2)

lemma take4_nth:
  "i + 4 \<le> length xs \<Longrightarrow> take 4 (drop i xs) = [xs ! i, xs ! (i + 1), xs ! (i + 2), xs ! (i + 3)]"
  by (auto intro!: nth_equalityI simp: nth_Cons' less_Suc_eq numeral_eq_Suc)

subsection \<open>Planar 4:2:2\<close>

lemma shr_mean_U:
  assumes "length ps = 2 ^ n" "n \<le> 8"
  shows "shr_byte (acc16 (map (pixel_convert plane_U) ps)) n = mean_U ps"
  unfolding mean_U_def using assms by (intro shr_byte_mean) simp_all

lemma shr_mean_V:
  assumes "length ps = 2 ^ n" "n \<le> 8"
  shows "shr_byte (acc16 (map (pixel_convert plane_V) ps)) n = mean_V ps"
  unfolding mean_V_def using assms by (intro shr_byte_mean) simp_all

lemma set_and_next_mean:
  assumes "shape_ok S uv" and "layout_ok py (length ys) uv 1 (length ot)"
    and "length ps = 2 ^ shift S" "shift S \<le> 8"
  shows "set_and_next S (acc16 (map (pixel_convert plane_U) ps)) (acc16 (map (pixel_convert plane_V) ps))
           uv (overwrite ot py ys) =
         Some (uv_advance 1 uv, emit S py uv ys [mean_U ps] [mean_V ps] ot)"
proof -
  have lo: "layout_ok py 0 uv 1 (length (overwrite ot py ys))"
    using assms(2) by (cases uv) simp_all
  show ?thesis
    unfolding emit_def set_and_next_emit[OF assms(1) lo]
      shr_mean_U[OF assms(3,4)] shr_mean_V[OF assms(3,4)] ..
qed

lemma planar422_cell:
  assumes "i < s" "i + 2 \<le> length in_data" "shape_ok yuv_422P uv" "layout_ok py 2 uv 1 (length ot)"
  shows "\<exists>u' v'. planar422_loop in_data s i py uv u_k v_k ot =
           planar422_loop in_data s (i + 2) (py + 2) (uv_advance 1 uv) u' v'
             (emit yuv_422P py uv (map (pixel_convert plane_Y) (take 2 (drop i in_data)))
                [mean_U (take 2 (drop i in_data))] [mean_V (take 2 (drop i in_data))] ot)"
proof -
  let ?p0 = "in_data ! i" and ?p1 = "in_data ! (i + 1)"
  let ?Y = "pixel_convert plane_Y" and ?U = "pixel_convert plane_U" and ?V = "pixel_convert plane_V"
  have py: "py < length ot" "py + 1 < length ot"
    using assms(4) by (cases uv; simp)+
  have i: "i < length in_data" "i + 1 < length in_data" using assms(2) by simp_all
  have px1: "planar_pixel Assign in_data i py u_k v_k ot =
             Some (acc16 [?U ?p0], acc16 [?V ?p0], overwrite ot py [?Y ?p0])"
    unfolding planar_pixel_Some[OF i(1) py(1)] apply_op_Assign ..
  have px2: "planar_pixel AddAssign in_data (i + 1) (py + 1) (acc16 [?U ?p0]) (acc16 [?V ?p0])
               (overwrite ot py [?Y ?p0]) =
             Some (acc16 [?U ?p0, ?U ?p1], acc16 [?V ?p0, ?V ?p1], overwrite ot py [?Y ?p0, ?Y ?p1])"
    using py(2) by (subst planar_pixel_Some[OF i(2)]) (simp_all add: apply_op_acc16 overwrite_append_at)
  have lo: "layout_ok py (length [?Y ?p0, ?Y ?p1]) uv 1 (length ot)"
    using assms(4) by (cases uv) simp_all
  have sn: "set_and_next yuv_422P (acc16 (map ?U [?p0, ?p1])) (acc16 (map ?V [?p0, ?p1])) uv
              (overwrite ot py [?Y ?p0, ?Y ?p1]) =
            Some (uv_advance 1 uv, emit yuv_422P py uv [?Y ?p0, ?Y ?p1]
                    [mean_U [?p0, ?p1]] [mean_V [?p0, ?p1]] ot)"
    by (rule set_and_next_mean[OF assms(3) lo]) simp_all
  show ?thesis
    by (subst planar422_loop.simps)
       (simp only: assms(1) if_True px1 px2 sn[unfolded list.map] take2_nth[OF assms(2)] list.map
          Option.bind.simps prod.case, blast)
qed

text \<open>
  A loop that handles \<open>g\<close> pixels per round, writes their luma bytes and one pair
  of chroma means, and stops at \<open>s\<close>, leaves the luma bytes of all its pixels and
  the chroma means of all its blocks.
\<close>

lemma flat_cells:
  fixes F :: "nat \<Rightarrow> nat \<Rightarrow> uv_t \<Rightarrow> 16 word \<Rightarrow> 16 word \<Rightarrow> 8 word list \<Rightarrow> 8 word list option"
  assumes stop: "\<And>i py uv u v ot. \<not> i < s \<Longrightarrow> F i py uv u v ot = Some ot"
    and step: "\<And>i py uv u v ot.
      i < s \<Longrightarrow> i + g \<le> length in_data \<Longrightarrow> shape_ok S uv \<Longrightarrow>
      layout_ok py g uv 1 (length ot) \<Longrightarrow>
      \<exists>u' v'. F i py uv u v ot =
        F (i + g) (py + g) (uv_advance 1 uv) u' v'
          (emit S py uv (map (pixel_convert plane_Y) (take g (drop i in_data)))
             [mean_U (take g (drop i in_data))] [mean_V (take g (drop i in_data))] ot)"
    and g: "0 < g"
    and "i + g * n = s" "s \<le> length in_data" "shape_ok S uv"
    and "layout_ok py (g * n) uv n (length ot)"
  shows "F i py uv u v ot =
         Some (emit S py uv
                 (map (pixel_convert plane_Y) (take (g * n) (drop i in_data)))
                 (map mean_U (chunks g (take (g * n) (drop i in_data))))
                 (map mean_V (chunks g (take (g * n) (drop i in_data)))) ot)"
  using assms(4-)
proof (induction n arbitrary: i py uv u v ot)
  case 0
  then show ?case using stop[of i py uv u v ot] by simp
next
  case (Suc n)
  let ?c = "take g (drop i in_data)" and ?R = "take (g * n) (drop (i + g) in_data)"
  let ?Y = "pixel_convert plane_Y"
  have lc: "length ?c = g" using Suc.prems by simp
  have lR: "length ?R = g * n" using Suc.prems by (simp add: add.assoc)
  have lay: "layout_ok py (g + g * n) uv (1 + n) (length ot)" using Suc.prems(4) by simp
  have "i < s" "i + g \<le> length in_data" using Suc.prems g by simp_all
  from step[OF this Suc.prems(3) layout_ok_mono(1)[OF lay], of u v] obtain u' v' where
    st: "F i py uv u v ot =
         F (i + g) (py + g) (uv_advance 1 uv) u' v'
           (emit S py uv (map ?Y ?c) [mean_U ?c] [mean_V ?c] ot)"
    by blast
  have "F (i + g) (py + g) (uv_advance 1 uv) u' v'
           (emit S py uv (map ?Y ?c) [mean_U ?c] [mean_V ?c] ot) =
        Some (emit S (py + g) (uv_advance 1 uv) (map ?Y ?R) (map mean_U (chunks g ?R))
                (map mean_V (chunks g ?R)) (emit S py uv (map ?Y ?c) [mean_U ?c] [mean_V ?c] ot))"
    using Suc.prems layout_ok_mono(2)[OF lay] by (intro Suc.IH) (simp_all add: add.assoc)
  also have "\<dots> = Some (emit S py uv (map ?Y ?c @ map ?Y ?R)
                ([mean_U ?c] @ map mean_U (chunks g ?R)) ([mean_V ?c] @ map mean_V (chunks g ?R)) ot)"
  proof -
    have "emit S (py + g) (uv_advance 1 uv) (map ?Y ?R) (map mean_U (chunks g ?R))
            (map mean_V (chunks g ?R)) (emit S py uv (map ?Y ?c) [mean_U ?c] [mean_V ?c] ot) =
          emit S py uv (map ?Y ?c @ map ?Y ?R)
            ([mean_U ?c] @ map mean_U (chunks g ?R)) ([mean_V ?c] @ map mean_V (chunks g ?R)) ot"
    proof (rule emit_append_at[where a = g and b = "g * n" and n = 1 and k = n and len = "length ot"])
      show "length (map ?Y ?c) = g" by (simp only: length_map lc)
      show "length (map ?Y ?R) = g * n" by (simp only: length_map lR)
      show "length (map mean_U (chunks g ?R)) = n"
        by (simp only: length_map length_chunks[OF lR g])
      show "layout_ok py (g + g * n) uv (1 + n) (length ot)" by (rule lay)
    qed simp_all
    then show ?thesis by (simp only:)
  qed
  finally show ?case
    unfolding st take_chunk_Suc chunks_Cons[OF lc g] by simp
qed

lemma planar422_loop_emit:
  assumes "i + 2 * n = s" "s \<le> length in_data" "shape_ok yuv_422P uv"
    and "layout_ok py (2 * n) uv n (length ot)"
  shows "planar422_loop in_data s i py uv u_k v_k ot =
         Some (emit yuv_422P py uv
                 (map (pixel_convert plane_Y) (take (2 * n) (drop i in_data)))
                 (map mean_U (chunks 2 (take (2 * n) (drop i in_data))))
                 (map mean_V (chunks 2 (take (2 * n) (drop i in_data)))) ot)"
proof (rule flat_cells[where F = "planar422_loop in_data s" and s = s, OF _ _ _ assms])
  show "\<not> i < s \<Longrightarrow> planar422_loop in_data s i py uv u v ot = Some ot" for i py uv u v ot
    by (subst planar422_loop.simps) simp
  show "\<exists>u' v'. planar422_loop in_data s i py uv u v ot =
           planar422_loop in_data s (i + 2) (py + 2) (uv_advance 1 uv) u' v'
             (emit yuv_422P py uv (map (pixel_convert plane_Y) (take 2 (drop i in_data)))
                [mean_U (take 2 (drop i in_data))] [mean_V (take 2 (drop i in_data))] ot)"
    if "i < s" "i + 2 \<le> length in_data" "shape_ok yuv_422P uv" "layout_ok py 2 uv 1 (length ot)"
    for i py uv u v ot
    using that by (rule planar422_cell)
qed simp

subsection \<open>Planar 4:1:1\<close>

lemma planar411_cell:
  assumes "i < s" "i + 4 \<le> length in_data" "shape_ok yuv_411P uv" "layout_ok py 4 uv 1 (length ot)"
  shows "\<exists>u' v'. planar411_loop in_data s i py uv u_k v_k ot =
           planar411_loop in_data s (i + 4) (py + 4) (uv_advance 1 uv) u' v'
             (emit yuv_411P py uv (map (pixel_convert plane_Y) (take 4 (drop i in_data)))
                [mean_U (take 4 (drop i in_data))] [mean_V (take 4 (drop i in_data))] ot)"
proof -
  let ?p0 = "in_data ! i" and ?p1 = "in_data ! (i + 1)"
  let ?p2 = "in_data ! (i + 2)" and ?p3 = "in_data ! (i + 3)"
  let ?Y = "pixel_convert plane_Y" and ?U = "pixel_convert plane_U" and ?V = "pixel_convert plane_V"
  have py: "py < length ot" "py + 1 < length ot" "py + 2 < length ot" "py + 3 < length ot"
    using assms(4) by (cases uv; simp)+
  have i: "i < length in_data" "i + 1 < length in_data" "i + 2 < length in_data"
    "i + 3 < length in_data" using assms(2) by simp_all
  have px1: "planar_pixel Assign in_data i py u_k v_k ot =
             Some (acc16 [?U ?p0], acc16 [?V ?p0], overwrite ot py [?Y ?p0])"
    unfolding planar_pixel_Some[OF i(1) py(1)] apply_op_Assign ..
  have px2: "planar_pixel AddAssign in_data (i + 1) (py + 1) (acc16 [?U ?p0]) (acc16 [?V ?p0])
               (overwrite ot py [?Y ?p0]) =
             Some (acc16 [?U ?p0, ?U ?p1], acc16 [?V ?p0, ?V ?p1], overwrite ot py [?Y ?p0, ?Y ?p1])"
    using py(2) by (subst planar_pixel_Some[OF i(2)]) (simp_all add: apply_op_acc16 overwrite_append_at)
  have px3: "planar_pixel AddAssign in_data (i + 2) (py + 2) (acc16 [?U ?p0, ?U ?p1])
               (acc16 [?V ?p0, ?V ?p1]) (overwrite ot py [?Y ?p0, ?Y ?p1]) =
             Some (acc16 [?U ?p0, ?U ?p1, ?U ?p2], acc16 [?V ?p0, ?V ?p1, ?V ?p2],
                   overwrite ot py [?Y ?p0, ?Y ?p1, ?Y ?p2])"
    using py(3) by (subst planar_pixel_Some[OF i(3)]) (simp_all add: apply_op_acc16 overwrite_append_at)
  have px4: "planar_pixel AddAssign in_data (i + 3) (py + 3) (acc16 [?U ?p0, ?U ?p1, ?U ?p2])
               (acc16 [?V ?p0, ?V ?p1, ?V ?p2]) (overwrite ot py [?Y ?p0, ?Y ?p1, ?Y ?p2]) =
             Some (acc16 [?U ?p0, ?U ?p1, ?U ?p2, ?U ?p3], acc16 [?V ?p0, ?V ?p1, ?V ?p2, ?V ?p3],
                   overwrite ot py [?Y ?p0, ?Y ?p1, ?Y ?p2, ?Y ?p3])"
    using py(4) by (subst planar_pixel_Some[OF i(4)]) (simp_all add: apply_op_acc16 overwrite_append_at)
  have lo: "layout_ok py (length [?Y ?p0, ?Y ?p1, ?Y ?p2, ?Y ?p3]) uv 1 (length ot)"
    using assms(4) by (cases uv) simp_all
  have sn: "set_and_next yuv_411P (acc16 (map ?U [?p0, ?p1, ?p2, ?p3]))
              (acc16 (map ?V [?p0, ?p1, ?p2, ?p3])) uv
              (overwrite ot py [?Y ?p0, ?Y ?p1, ?Y ?p2, ?Y ?p3]) =
            Some (uv_advance 1 uv, emit yuv_411P py uv [?Y ?p0, ?Y ?p1, ?Y ?p2, ?Y ?p3]
                    [mean_U [?p0, ?p1, ?p2, ?p3]] [mean_V [?p0, ?p1, ?p2, ?p3]] ot)"
    by (rule set_and_next_mean[OF assms(3) lo]) simp_all
  show ?thesis
    by (subst planar411_loop.simps)
       (simp only: assms(1) if_True px1 px2 px3 px4 sn[unfolded list.map] take4_nth[OF assms(2)]
          list.map Option.bind.simps prod.case, blast)
qed

lemma planar411_loop_emit:
  assumes "i + 4 * n = s" "s \<le> length in_data" "shape_ok yuv_411P uv"
    and "layout_ok py (4 * n) uv n (length ot)"
  shows "planar411_loop in_data s i py uv u_k v_k ot =
         Some (emit yuv_411P py uv
                 (map (pixel_convert plane_Y) (take (4 * n) (drop i in_data)))
                 (map mean_U (chunks 4 (take (4 * n) (drop i in_data))))
                 (map mean_V (chunks 4 (take (4 * n) (drop i in_data)))) ot)"
proof (rule flat_cells[where F = "planar411_loop in_data s" and s = s, OF _ _ _ assms])
  show "\<not> i < s \<Longrightarrow> planar411_loop in_data s i py uv u v ot = Some ot" for i py uv u v ot
    by (subst planar411_loop.simps) simp
  show "\<exists>u' v'. planar411_loop in_data s i py uv u v ot =
           planar411_loop in_data s (i + 4) (py + 4) (uv_advance 1 uv) u' v'
             (emit yuv_411P py uv (map (pixel_convert plane_Y) (take 4 (drop i in_data)))
                [mean_U (take 4 (drop i in_data))] [mean_V (take 4 (drop i in_data))] ot)"
    if "i < s" "i + 4 \<le> length in_data" "shape_ok yuv_411P uv" "layout_ok py 4 uv 1 (length ot)"
    for i py uv u v ot
    using that by (rule planar411_cell)
qed simp

subsection \<open>The packed layouts\<close>

text \<open>
  A loop that handles \<open>g\<close> pixels per round and writes one group of \<open>b\<close> bytes for
  them leaves the groups of all its blocks, one after the other.
\<close>

lemma packed_cells:
  fixes F :: "nat \<Rightarrow> nat \<Rightarrow> 16 word \<Rightarrow> 16 word \<Rightarrow> 8 word list \<Rightarrow> 8 word list option"
  assumes stop: "\<And>i p u v ot. \<not> i < s \<Longrightarrow> F i p u v ot = Some ot"
    and step: "\<And>i p u v ot.
      i < s \<Longrightarrow> i + g \<le> length in_data \<Longrightarrow> p + b \<le> length ot \<Longrightarrow>
      \<exists>u' v'. F i p u v ot =
        F (i + g) (p + b) u' v' (overwrite ot p (grp (take g (drop i in_data))))"
    and g: "0 < g" and grp: "\<And>ps. length (grp ps) = b"
    and "i + g * n = s" "s \<le> length in_data" "p + b * n \<le> length ot"
  shows "F i p u v ot =
         Some (overwrite ot p (concat (map grp (chunks g (take (g * n) (drop i in_data))))))"
  using assms(5-)
proof (induction n arbitrary: i p u v ot)
  case 0
  then show ?case using stop[of i p u v ot] by simp
next
  case (Suc n)
  let ?c = "take g (drop i in_data)" and ?R = "take (g * n) (drop (i + g) in_data)"
  have lc: "length ?c = g" using Suc.prems by simp
  have "i < s" "i + g \<le> length in_data" "p + b \<le> length ot" using Suc.prems g by simp_all
  from step[OF this, of u v] obtain u' v' where
    st: "F i p u v ot = F (i + g) (p + b) u' v' (overwrite ot p (grp ?c))"
    by blast
  have "F (i + g) (p + b) u' v' (overwrite ot p (grp ?c)) =
        Some (overwrite (overwrite ot p (grp ?c)) (p + b) (concat (map grp (chunks g ?R))))"
    using Suc.prems by (intro Suc.IH) (simp_all add: add.assoc)
  also have "\<dots> = Some (overwrite ot p (grp ?c @ concat (map grp (chunks g ?R))))"
    by (simp add: overwrite_append_at grp)
  finally show ?case
    unfolding st take_chunk_Suc chunks_Cons[OF lc g] by simp
qed

lemma off_bounds:
  assumes "Tar \<in> {yuv_YUY2, yuv_YVYU, yuv_UYVY, yuv_VYUY}"
  shows "off_y0 Tar < 4" "off_y1 Tar < 4" "off_cb Tar < 4" "off_cr Tar < 4"
  using assms by auto

lemma group422_stores:
  assumes "Tar \<in> {yuv_YUY2, yuv_YVYU, yuv_UYVY, yuv_VYUY}" and "p + 4 \<le> length ot"
  shows "ot[p + off_y0 Tar := pixel_convert plane_Y p0,
            p + off_y1 Tar := pixel_convert plane_Y p1,
            p + off_cb Tar := mean_U [p0, p1],
            p + off_cr Tar := mean_V [p0, p1]] = overwrite ot p (group422 Tar [p0, p1])"
  using assms
  by (auto intro!: nth_equalityI simp: nth_overwrite nth_Cons' nth_list_update)

lemma packed422_cell:
  assumes "Tar \<in> {yuv_YUY2, yuv_YVYU, yuv_UYVY, yuv_VYUY}"
    and "i < s" "i + 2 \<le> length in_data" "p + 4 \<le> length ot"
  shows "packed422_loop Tar in_data s i p ot =
         packed422_loop Tar in_data s (i + 2) (p + 4)
           (overwrite ot p (group422 Tar (take 2 (drop i in_data))))"
proof -
  let ?p0 = "in_data ! i" and ?p1 = "in_data ! (i + 1)"
  let ?Y = "pixel_convert plane_Y" and ?U = "pixel_convert plane_U" and ?V = "pixel_convert plane_V"
  note ob = off_bounds[OF assms(1)]
  have l: "load in_data i = Some ?p0" "load in_data (i + 1) = Some ?p1"
    using assms(3) by (simp_all add: load_Some)
  have b: "p + off_y0 Tar < length ot" "p + off_y1 Tar < length ot"
    "p + off_cb Tar < length ot" "p + off_cr Tar < length ot"
    using ob assms(4) by simp_all
  have st: "store ot' (p + off_y0 Tar) x = Some (ot'[p + off_y0 Tar := x])"
    "store ot' (p + off_y1 Tar) x = Some (ot'[p + off_y1 Tar := x])"
    "store ot' (p + off_cb Tar) x = Some (ot'[p + off_cb Tar := x])"
    "store ot' (p + off_cr Tar) x = Some (ot'[p + off_cr Tar := x])"
    if "length ot' = length ot" for ot' x
    using b that by (simp_all add: store_Some)
  have m: "shr_byte (apply_op AddAssign (apply_op Assign 0 (?U ?p0)) (?U ?p1)) 1 = mean_U [?p0, ?p1]"
    "shr_byte (apply_op AddAssign (apply_op Assign 0 (?V ?p0)) (?V ?p1)) 1 = mean_V [?p0, ?p1]"
    using shr_mean_U[of "[?p0, ?p1]" 1] shr_mean_V[of "[?p0, ?p1]" 1]
    by (simp_all add: apply_op_Assign apply_op_acc16)
  show ?thesis
    unfolding take2_nth[OF assms(3)] group422_stores[OF assms(1,4), symmetric]
    by (subst packed422_loop.simps)
       (simp only: assms(2) if_True l st length_list_update m Option.bind.simps Let_def)
qed

lemma length_group422:
  "Tar \<in> {yuv_YUY2, yuv_YVYU, yuv_UYVY, yuv_VYUY} \<Longrightarrow> length (group422 Tar ps) = 4"
  by auto

lemma packed422_loop_groups:
  assumes "Tar \<in> {yuv_YUY2, yuv_YVYU, yuv_UYVY, yuv_VYUY}"
    and "i + 2 * n = s" "s \<le> length in_data" "p + 4 * n \<le> length ot"
  shows "packed422_loop Tar in_data s i p ot =
         Some (overwrite ot p (concat (map (group422 Tar) (chunks 2 (take (2 * n) (drop i in_data))))))"
proof (rule packed_cells[where F = "\<lambda>i p u v. packed422_loop Tar in_data s i p" and s = s
      and u = 0 and v = 0, OF _ _ _ _ assms(2-)])
  show "\<not> i < s \<Longrightarrow> packed422_loop Tar in_data s i p ot = Some ot" for i p ot
    by (subst packed422_loop.simps) simp
  show "\<exists>u' v'. packed422_loop Tar in_data s i p ot =
          packed422_loop Tar in_data s (i + 2) (p + 4)
            (overwrite ot p (group422 Tar (take 2 (drop i in_data))))"
    if "i < s" "i + 2 \<le> length in_data" "p + 4 \<le> length ot" for i p ot
    using packed422_cell[OF assms(1) that] by simp
  show "length (group422 Tar ps) = 4" for ps
    by (rule length_group422[OF assms(1)])
qed simp

lemma update_in_overwrite:
  "k < length vs \<Longrightarrow> p + length vs \<le> length ot \<Longrightarrow>
   (overwrite ot p vs)[p + k := x] = overwrite ot p (vs[k := x])"
  by (auto intro!: nth_equalityI simp: nth_overwrite nth_list_update)

lemma store_in_overwrite:
  "k < length vs \<Longrightarrow> p + length vs \<le> length ot \<Longrightarrow>
   store (overwrite ot p vs) (p + k) x = Some (overwrite ot p (vs[k := x]))"
  by (simp add: store_Some update_in_overwrite)

lemma overwrite_self: "overwrite ot p (take n (drop p ot)) = ot"
  by (auto intro!: nth_equalityI simp: nth_overwrite)

lemma y41p_y_less: "I < 8 \<Longrightarrow> y41p_y I < 12"
  by (auto simp: y41p_y_def less_Suc_eq numeral_eq_Suc)

lemma y41p_pixel_Some:
  assumes "I < 8" "length vs = 12" "p + 12 \<le> length ot" "i < length in_data"
  shows "y41p_pixel I OP in_data i p u_k v_k (overwrite ot p vs) =
         Some (apply_op OP u_k (pixel_convert plane_U (in_data ! i)),
               apply_op OP v_k (pixel_convert plane_V (in_data ! i)),
               overwrite ot p (vs[y41p_y I := pixel_convert plane_Y (in_data ! i)]))"
  using assms y41p_y_less[OF assms(1)]
  by (simp add: y41p_pixel_def load_Some store_in_overwrite)

lemma take8_nth:
  "i + 8 \<le> length xs \<Longrightarrow>
   take 8 (drop i xs) = [xs ! i, xs ! (i + 1), xs ! (i + 2), xs ! (i + 3),
                         xs ! (i + 4), xs ! (i + 5), xs ! (i + 6), xs ! (i + 7)]"
  by (auto intro!: nth_equalityI simp: nth_Cons' less_Suc_eq numeral_eq_Suc)

lemma y41p_cell:
  assumes "i < s" "i + 8 \<le> length in_data" "p + 12 \<le> length ot"
  shows "\<exists>u' v'. y41p_loop in_data s i p u_k v_k ot =
           y41p_loop in_data s (i + 8) (p + 12) u' v'
             (overwrite ot p (group_Y41P (take 8 (drop i in_data))))"
proof -
  let ?Y = "pixel_convert plane_Y" and ?U = "pixel_convert plane_U" and ?V = "pixel_convert plane_V"
  let ?q = "\<lambda>k. in_data ! (i + k)"
  define Z where "Z = take 12 (drop p ot)"
  have lZ: "length Z = 12" using assms(3) by (simp add: Z_def)
  have ot: "ot = overwrite ot p Z" by (simp add: Z_def overwrite_self)
  have i: "i < length in_data" "i + 1 < length in_data" "i + 2 < length in_data"
    "i + 3 < length in_data" "i + 4 < length in_data" "i + 5 < length in_data"
    "i + 6 < length in_data" "i + 7 < length in_data"
    using assms(2) by simp_all
  have px: "y41p_pixel I OP in_data j p u v (overwrite ot p vs) =
         Some (apply_op OP u (?U (in_data ! j)), apply_op OP v (?V (in_data ! j)),
               overwrite ot p (vs[y41p_y I := ?Y (in_data ! j)]))"
    if "I < 8" "length vs = 12" "j < length in_data" for I OP j u v vs
    using that assms(3) by (intro y41p_pixel_Some) simp_all
  have st: "store (overwrite ot p vs) (p + k) x = Some (overwrite ot p (vs[k := x]))"
    if "k < 12" "length vs = 12" for k vs x
    using that assms(3) by (intro store_in_overwrite) simp_all
  have st0: "store (overwrite ot p vs) p x = Some (overwrite ot p (vs[0 := x]))"
    if "length vs = 12" for vs x
    using st[of 0 vs x] that by simp
  have m: "shr_byte (apply_op AddAssign (apply_op AddAssign (apply_op AddAssign
             (apply_op Assign c (?U a0)) (?U a1)) (?U a2)) (?U a3)) 2 = mean_U [a0, a1, a2, a3]"
    "shr_byte (apply_op AddAssign (apply_op AddAssign (apply_op AddAssign
             (apply_op Assign c (?V a0)) (?V a1)) (?V a2)) (?V a3)) 2 = mean_V [a0, a1, a2, a3]"
    for c a0 a1 a2 a3
    using shr_mean_U[of "[a0, a1, a2, a3]" 2] shr_mean_V[of "[a0, a1, a2, a3]" 2]
    by (simp_all add: apply_op_Assign apply_op_acc16)
  have fin: "Z[y41p_y 0 := y0, y41p_y 1 := y1, y41p_y 2 := y2, y41p_y 3 := y3, 0 := u0, 2 := v0,
               y41p_y 4 := y4, y41p_y 5 := y5, y41p_y 6 := y6, y41p_y 7 := y7, 4 := u1, 6 := v1] =
             [u0, y0, v0, y1, u1, y2, v1, y3, y4, y5, y6, y7]"
    for y0 y1 y2 y3 y4 y5 y6 y7 u0 v0 u1 v1
    using lZ
    by (auto intro!: nth_equalityI simp: y41p_y_def nth_list_update less_Suc_eq numeral_eq_Suc)
  have g: "group_Y41P (take 8 (drop i in_data)) =
           [mean_U [?q 0, ?q 1, ?q 2, ?q 3], ?Y (?q 0), mean_V [?q 0, ?q 1, ?q 2, ?q 3], ?Y (?q 1),
            mean_U [?q 4, ?q 5, ?q 6, ?q 7], ?Y (?q 2), mean_V [?q 4, ?q 5, ?q 6, ?q 7], ?Y (?q 3),
            ?Y (?q 4), ?Y (?q 5), ?Y (?q 6), ?Y (?q 7)]"
    unfolding take8_nth[OF assms(2)] by (simp add: group_Y41P_def)
  show ?thesis
    unfolding g
    apply (subst y41p_loop.simps)
    apply (subst (1 2) ot)
    apply (simp add: assms(1) px st st0 lZ i m fin del: One_nat_def add_2_eq_Suc' add_2_eq_Suc)
    apply blast
    done
qed

lemma y41p_loop_groups:
  assumes "i + 8 * n = s" "s \<le> length in_data" "p + 12 * n \<le> length ot"
  shows "y41p_loop in_data s i p u_k v_k ot =
         Some (overwrite ot p (concat (map group_Y41P (chunks 8 (take (8 * n) (drop i in_data))))))"
proof (rule packed_cells[where F = "y41p_loop in_data s" and s = s, OF _ _ _ _ assms])
  show "\<not> i < s \<Longrightarrow> y41p_loop in_data s i p u v ot = Some ot" for i p u v ot
    by (subst y41p_loop.simps) simp
  show "\<exists>u' v'. y41p_loop in_data s i p u v ot =
          y41p_loop in_data s (i + 8) (p + 12) u' v'
            (overwrite ot p (group_Y41P (take 8 (drop i in_data))))"
    if "i < s" "i + 8 \<le> length in_data" "p + 12 \<le> length ot" for i p u v ot
    using that by (rule y41p_cell)
  show "length (group_Y41P ps) = 12" for ps
    by (simp add: group_Y41P_def)
qed simp

subsection \<open>The whole destination\<close>

lemma overwrite_whole: "length vs = length ot \<Longrightarrow> overwrite ot 0 vs = vs"
  by (auto intro!: nth_equalityI simp: nth_overwrite)

lemma emit_planar_whole:
  assumes "length ys = a" "length us = n" "length vs = n" "length ot = a + n + n"
  shows "emit S 0 (uv_planar a (a + n)) ys us vs ot = ys @ us @ vs"
    and "emit S 0 (uv_planar (a + n) a) ys us vs ot = ys @ vs @ us"
  using assms by (auto intro!: nth_equalityI simp: emit_def nth_overwrite nth_append)

lemma emit_semi_whole:
  assumes "length ys = a" "length us = n" "length vs = n" "length ot = a + n + n"
  shows "emit S 0 (uv_semi a) ys us vs ot = ys @ interleave S us vs"
  using assms
  by (auto intro!: nth_equalityI simp: emit_def nth_overwrite nth_append length_interleave)

lemma size_t_mul_id: "a * b < 2 ^ 64 \<Longrightarrow> size_t_mul a b = a * b"
  by (simp add: size_t_mul_def)

lemma take_all_chunks: "length xs = g * n \<Longrightarrow> take (g * n) (drop 0 xs) = xs"
  by simp

lemma transform_to_packed422_groups:
  assumes "Tar \<in> {yuv_YUY2, yuv_YVYU, yuv_UYVY, yuv_VYUY}"
    and "even (in_w * in_h)" "in_w * in_h < 2 ^ 64"
    and "length in_data = in_w * in_h" "length ot_data = 2 * (in_w * in_h)"
  shows "transform_to_packed422 Tar in_data in_w in_h ot_data =
         Some (concat (map (group422 Tar) (chunks 2 in_data)))"
proof -
  obtain n where n: "in_w * in_h = 2 * n" using assms(2) by auto
  have l: "length (concat (map (group422 Tar) (chunks 2 in_data))) = length ot_data"
    using assms(1,4,5) n
    by (simp add: length_concat comp_def length_group422 length_chunks sum_list_triv mult.commute)
  have "packed422_loop Tar in_data (in_w * in_h) 0 0 ot_data =
        Some (overwrite ot_data 0 (concat (map (group422 Tar) (chunks 2 (take (2 * n) (drop 0 in_data))))))"
    using assms(4,5) n by (intro packed422_loop_groups[OF assms(1)]) simp_all
  then show ?thesis
    using assms(4) n l
    by (simp add: transform_to_packed422_def size_t_mul_id[OF assms(3)] overwrite_whole)
qed

lemma transform_to_Y41P_groups:
  assumes "8 dvd in_w * in_h" "in_w * in_h < 2 ^ 64"
    and "length in_data = in_w * in_h" "length ot_data = in_w * in_h + in_w * in_h div 2"
  shows "transform_to_Y41P in_data in_w in_h u_init v_init ot_data =
         Some (concat (map group_Y41P (chunks 8 in_data)))"
proof -
  obtain n where n: "in_w * in_h = 8 * n" using assms(1) by auto
  have lg: "length (group_Y41P ps) = 12" for ps by (simp add: group_Y41P_def)
  have l: "length (concat (map group_Y41P (chunks 8 in_data))) = length ot_data"
    using assms(3,4) n
    by (simp add: length_concat comp_def lg length_chunks sum_list_triv)
  have "y41p_loop in_data (in_w * in_h) 0 0 u_init v_init ot_data =
        Some (overwrite ot_data 0 (concat (map group_Y41P (chunks 8 (take (8 * n) (drop 0 in_data))))))"
    using assms(3,4) n by (intro y41p_loop_groups) simp_all
  then show ?thesis
    using assms(3) n l
    by (simp add: transform_to_Y41P_def size_t_mul_id[OF assms(2)] overwrite_whole)
qed

lemma transform_to_422P_planes:
  assumes "even (in_w * in_h)" "in_w * in_h < 2 ^ 64"
    and "length in_data = in_w * in_h" "length ot_data = 2 * (in_w * in_h)"
  shows "transform_to_422P in_data in_w in_h u_init v_init ot_data =
         Some (map (pixel_convert plane_Y) in_data @
               map mean_U (chunks 2 in_data) @ map mean_V (chunks 2 in_data))"
proof -
  obtain n where n: "in_w * in_h = 2 * n" using assms(1) by auto
  let ?uv = "uv_planar (2 * n) (2 * n + n)"
  have "planar422_loop in_data (2 * n) 0 0 ?uv u_init v_init ot_data =
        Some (emit yuv_422P 0 ?uv (map (pixel_convert plane_Y) (take (2 * n) (drop 0 in_data)))
                (map mean_U (chunks 2 (take (2 * n) (drop 0 in_data))))
                (map mean_V (chunks 2 (take (2 * n) (drop 0 in_data)))) ot_data)"
    using assms(3,4) n by (intro planar422_loop_emit) simp_all
  also have "take (2 * n) (drop 0 in_data) = in_data" using assms(3) n by simp
  also have "emit yuv_422P 0 ?uv (map (pixel_convert plane_Y) in_data)
               (map mean_U (chunks 2 in_data)) (map mean_V (chunks 2 in_data)) ot_data =
             map (pixel_convert plane_Y) in_data @
               map mean_U (chunks 2 in_data) @ map mean_V (chunks 2 in_data)"
    by (rule emit_planar_whole(1)) (use assms(3,4) n in \<open>simp_all add: length_chunks\<close>)
  finally have "planar422_loop in_data (2 * n) 0 0 ?uv u_init v_init ot_data =
      Some (map (pixel_convert plane_Y) in_data @
               map mean_U (chunks 2 in_data) @ map mean_V (chunks 2 in_data))" .
  moreover have "fill yuv_422P 0 in_w in_h = ?uv" "split yuv_422P plane_Y 0 in_w in_h = 0"
    using n by (simp_all add: size_t_mul_id[OF assms(2)] drop_bit_eq_div)
  ultimately show ?thesis
    unfolding transform_to_422P_def Let_def size_t_mul_id[OF assms(2)]
    by (simp only: n)
qed

lemma transform_to_411P_planes:
  assumes "4 dvd in_w * in_h" "in_w * in_h < 2 ^ 64"
    and "length in_data = in_w * in_h" "length ot_data = in_w * in_h + in_w * in_h div 2"
  shows "transform_to_411P in_data in_w in_h u_init v_init ot_data =
         Some (map (pixel_convert plane_Y) in_data @
               map mean_U (chunks 4 in_data) @ map mean_V (chunks 4 in_data))"
proof -
  obtain n where n: "in_w * in_h = 4 * n" using assms(1) by auto
  let ?uv = "uv_planar (4 * n) (4 * n + n)"
  have "planar411_loop in_data (4 * n) 0 0 ?uv u_init v_init ot_data =
        Some (emit yuv_411P 0 ?uv (map (pixel_convert plane_Y) (take (4 * n) (drop 0 in_data)))
                (map mean_U (chunks 4 (take (4 * n) (drop 0 in_data))))
                (map mean_V (chunks 4 (take (4 * n) (drop 0 in_data)))) ot_data)"
    using assms(3,4) n by (intro planar411_loop_emit) simp_all
  also have "take (4 * n) (drop 0 in_data) = in_data" using assms(3) n by simp
  also have "emit yuv_411P 0 ?uv (map (pixel_convert plane_Y) in_data)
               (map mean_U (chunks 4 in_data)) (map mean_V (chunks 4 in_data)) ot_data =
             map (pixel_convert plane_Y) in_data @
               map mean_U (chunks 4 in_data) @ map mean_V (chunks 4 in_data)"
    by (rule emit_planar_whole(1)) (use assms(3,4) n in \<open>simp_all add: length_chunks\<close>)
  finally have "planar411_loop in_data (4 * n) 0 0 ?uv u_init v_init ot_data =
      Some (map (pixel_convert plane_Y) in_data @
               map mean_U (chunks 4 in_data) @ map mean_V (chunks 4 in_data))" .
  moreover have "fill yuv_411P 0 in_w in_h = ?uv" "split yuv_411P plane_Y 0 in_w in_h = 0"
    using n by (simp_all add: size_t_mul_id[OF assms(2)] drop_bit_eq_div)
  ultimately show ?thesis
    unfolding transform_to_411P_def Let_def size_t_mul_id[OF assms(2)]
    by (simp only: n)
qed

lemma unat_mean2: "unat (mean_bytes [a, b]) = (unat a + unat b) div 2"
  by (simp add: unat_mean_bytes numeral_2_eq_2)

lemma mean_bytes_len:
  "length xs = n \<Longrightarrow> mean_bytes xs = word_of_nat (sum_list (map unat xs) div n)"
  by (simp add: mean_bytes_def)

text \<open>
  C4.  For each of the four packed 4:2:2 tags and every input of even pixel count
  (with a destination of two bytes per pixel), the writer returns one four-byte
  group per pair of consecutive pixels: the luma bytes of the two pixels, each
  converted on its own, and the two chroma bytes \<open>(U0 + U1) >> 1\<close> and
  \<open>(V0 + V1) >> 1\<close> of the pair's converted chroma values, in the order of the
  tag: YUY2 is Y, U, Y, V; YVYU is Y, V, Y, U; UYVY is U, Y, V, Y; VYUY is
  V, Y, U, Y.
\<close>

theorem packed422_writer:
  assumes "Tar \<in> {yuv_YUY2, yuv_YVYU, yuv_UYVY, yuv_VYUY}"
    and "even (in_w * in_h)" "in_w * in_h < 2 ^ 64"
    and "length in_data = in_w * in_h" "length ot_data = 2 * (in_w * in_h)"
  shows "transform_to_packed422 Tar in_data in_w in_h ot_data =
           Some (concat (map (group422 Tar) (chunks 2 in_data))) \<and>
         group422 yuv_YUY2 [p0, p1] =
           [pixel_convert plane_Y p0, mean_U [p0, p1], pixel_convert plane_Y p1, mean_V [p0, p1]] \<and>
         group422 yuv_YVYU [p0, p1] =
           [pixel_convert plane_Y p0, mean_V [p0, p1], pixel_convert plane_Y p1, mean_U [p0, p1]] \<and>
         group422 yuv_UYVY [p0, p1] =
           [mean_U [p0, p1], pixel_convert plane_Y p0, mean_V [p0, p1], pixel_convert plane_Y p1] \<and>
         group422 yuv_VYUY [p0, p1] =
           [mean_V [p0, p1], pixel_convert plane_Y p0, mean_U [p0, p1], pixel_convert plane_Y p1] \<and>
         unat (mean_U [p0, p1]) =
           (unat (pixel_convert plane_U p0) + unat (pixel_convert plane_U p1)) div 2 \<and>
         unat (mean_V [p0, p1]) =
           (unat (pixel_convert plane_V p0) + unat (pixel_convert plane_V p1)) div 2"
  using transform_to_packed422_groups[OF assms]
  by (simp add: mean_U_def mean_V_def unat_mean2)

lemma pixel_convert_red:
  "pixel_convert plane_Y \<lparr>rgb_b = 0, rgb_g = 0, rgb_r = 255\<rparr> = 82"
  "pixel_convert plane_U \<lparr>rgb_b = 0, rgb_g = 0, rgb_r = 255\<rparr> = 90"
  "pixel_convert plane_V \<lparr>rgb_b = 0, rgb_g = 0, rgb_r = 255\<rparr> = 240"
  by code_simp+

lemma pixel_convert_green:
  "pixel_convert plane_Y \<lparr>rgb_b = 0, rgb_g = 255, rgb_r = 0\<rparr> = 144"
  "pixel_convert plane_U \<lparr>rgb_b = 0, rgb_g = 255, rgb_r = 0\<rparr> = 54"
  "pixel_convert plane_V \<lparr>rgb_b = 0, rgb_g = 255, rgb_r = 0\<rparr> = 34"
  by code_simp+

theorem packed422_writer_witness:
  "yuv_YUY2 \<in> {yuv_YUY2, yuv_YVYU, yuv_UYVY, yuv_VYUY} \<and> even (2 * 1 :: nat) \<and>
   (2 * 1 :: nat) < 2 ^ 64 \<and>
   transform_to_packed422 yuv_YUY2
     [\<lparr>rgb_b = 0, rgb_g = 0, rgb_r = 255\<rparr>, \<lparr>rgb_b = 0, rgb_g = 255, rgb_r = 0\<rparr>] 2 1 [0, 0, 0, 0] =
     Some [82, 72, 144, 137]"
  using packed422_writer[of yuv_YUY2 2 1
      "[\<lparr>rgb_b = 0, rgb_g = 0, rgb_r = 255\<rparr>, \<lparr>rgb_b = 0, rgb_g = 255, rgb_r = 0\<rparr>]" "[0, 0, 0, 0]"]
  by (simp add: chunks_def mean_U_def mean_V_def mean_bytes_len[where n = 2] unat_mean2
      pixel_convert_red pixel_convert_green)

subsection \<open>Rows of cells\<close>

lemma overwrite_Cons_update:
  "a < length xs \<Longrightarrow> overwrite (xs[a := x]) (Suc a) cs = overwrite xs a (x # cs)"
  by (auto intro!: nth_equalityI simp: nth_overwrite nth_list_update nth_Cons')

lemma take_Suc_drop: "a < length xs \<Longrightarrow> take (Suc n) (drop a xs) = xs ! a # take n (drop (Suc a) xs)"
  by (simp add: Cons_nth_drop_Suc[symmetric])

lemma drop_Suc_update: "drop (Suc a) (xs[a := x]) = drop (Suc a) xs"
  by (simp add: drop_update_cancel)

lemma row_cells_Suc:
  assumes "a < length olds" "length c = g" "0 < g"
  shows "row_cells OP P g (take (Suc n) (drop a olds)) (c @ R) =
         cell_new OP (olds ! a) (map (pixel_convert P) c) #
         row_cells OP P g (take n (drop (Suc a) olds)) R"
  by (simp add: row_cells_def take_Suc_drop[OF assms(1)] chunks_Cons[OF assms(2,3)])

lemma length_row_cells:
  "length R = g * n \<Longrightarrow> 0 < g \<Longrightarrow> a + n \<le> length olds \<Longrightarrow>
   length (row_cells OP P g (take n (drop a olds)) R) = n"
  by (simp add: row_cells_def length_chunks)

lemma row_emits_Cons:
  "row_emits e sh (x # xs) = row_emits e sh [x] @ row_emits e sh xs"
  by (simp add: row_emits_def)

lemma length_row_emits: "length (row_emits e sh xs) = (if e then length xs else 0)"
  by (simp add: row_emits_def)

text \<open>
  A row loop that handles one cell of \<open>g\<close> pixels per round, up to the width
  \<open>g * (a + n)\<close>, handles the \<open>n\<close> cells from \<open>a\<close> on.
\<close>

lemma row_of_cells:
  fixes F :: "nat \<Rightarrow> row_state \<Rightarrow> row_state option"
  assumes stop: "\<And>st. F in_w st = Some st"
    and step: "\<And>a index py uv U V ot.
      g * a + g \<le> in_w \<Longrightarrow> index + g \<le> length in_data \<Longrightarrow> a < length U \<Longrightarrow> a < length V \<Longrightarrow>
      layout_ok py g uv (if e then 1 else 0) (length ot) \<Longrightarrow> shape_ok S uv \<Longrightarrow>
      F (g * a) (index, py, uv, U, V, ot) =
        F (g * a + g)
          (index + g, py + g, uv_advance (if e then 1 else 0) uv,
           U[a := cell_new OP (U ! a) (map (pixel_convert plane_U) (take g (drop index in_data)))],
           V[a := cell_new OP (V ! a) (map (pixel_convert plane_V) (take g (drop index in_data)))],
           emit S py uv (map (pixel_convert plane_Y) (take g (drop index in_data)))
             (row_emits e sh [cell_new OP (U ! a) (map (pixel_convert plane_U) (take g (drop index in_data)))])
             (row_emits e sh [cell_new OP (V ! a) (map (pixel_convert plane_V) (take g (drop index in_data)))])
             ot)"
    and g: "0 < g"
    and "g * a + g * n = in_w" "index + g * n \<le> length in_data"
    and "a + n \<le> length U" "a + n \<le> length V"
    and "layout_ok py (g * n) uv (if e then n else 0) (length ot)" "shape_ok S uv"
  shows "F (g * a) (index, py, uv, U, V, ot) =
         Some (index + g * n, py + g * n, uv_advance (if e then n else 0) uv,
               overwrite U a (row_cells OP plane_U g (take n (drop a U)) (take (g * n) (drop index in_data))),
               overwrite V a (row_cells OP plane_V g (take n (drop a V)) (take (g * n) (drop index in_data))),
               emit S py uv (map (pixel_convert plane_Y) (take (g * n) (drop index in_data)))
                 (row_emits e sh (row_cells OP plane_U g (take n (drop a U)) (take (g * n) (drop index in_data))))
                 (row_emits e sh (row_cells OP plane_V g (take n (drop a V)) (take (g * n) (drop index in_data))))
                 ot)"
  using assms(4-)
proof (induction n arbitrary: a index py uv U V ot)
  case 0
  then show ?case using stop by (simp add: row_cells_def row_emits_def)
next
  case (Suc n)
  let ?c = "take g (drop index in_data)" and ?R = "take (g * n) (drop (index + g) in_data)"
  let ?Y = "pixel_convert plane_Y" and ?e1 = "if e then 1 else (0::nat)" and ?en = "if e then n else 0"
  let ?u = "cell_new OP (U ! a) (map (pixel_convert plane_U) ?c)"
  let ?v = "cell_new OP (V ! a) (map (pixel_convert plane_V) ?c)"
  let ?U' = "U[a := ?u]" and ?V' = "V[a := ?v]"
  let ?ot' = "emit S py uv (map ?Y ?c) (row_emits e sh [?u]) (row_emits e sh [?v]) ot"
  let ?RU = "row_cells OP plane_U g (take n (drop (Suc a) U)) ?R"
  let ?RV = "row_cells OP plane_V g (take n (drop (Suc a) V)) ?R"
  have lc: "length ?c = g" using Suc.prems by simp
  have lR: "length ?R = g * n" using Suc.prems by (simp add: add.assoc)
  have a: "a < length U" "a < length V" using Suc.prems by simp_all
  have lay: "layout_ok py (g + g * n) uv (?e1 + ?en) (length ot)"
    using Suc.prems(5) by (cases e) simp_all
  have pre: "g * a + g \<le> in_w" "index + g \<le> length in_data" using Suc.prems by simp_all
  have ga: "g * a + g = g * Suc a" by simp
  have st: "F (g * a) (index, py, uv, U, V, ot) =
        F (g * Suc a) (index + g, py + g, uv_advance ?e1 uv, ?U', ?V', ?ot')"
    unfolding ga[symmetric] by (rule step[OF pre a layout_ok_mono(1)[OF lay] Suc.prems(6)])
  have ih: "F (g * Suc a) (index + g, py + g, uv_advance ?e1 uv, ?U', ?V', ?ot') =
        Some (index + g + g * n, py + g + g * n, uv_advance ?en (uv_advance ?e1 uv),
              overwrite ?U' (Suc a) (row_cells OP plane_U g (take n (drop (Suc a) ?U')) ?R),
              overwrite ?V' (Suc a) (row_cells OP plane_V g (take n (drop (Suc a) ?V')) ?R),
              emit S (py + g) (uv_advance ?e1 uv) (map ?Y ?R)
                (row_emits e sh (row_cells OP plane_U g (take n (drop (Suc a) ?U')) ?R))
                (row_emits e sh (row_cells OP plane_V g (take n (drop (Suc a) ?V')) ?R)) ?ot')"
    using Suc.prems layout_ok_mono(2)[OF lay] by (intro Suc.IH) (simp_all add: add.assoc)
  have lRU: "length ?RU = n" "length ?RV = n"
    using Suc.prems by (simp_all add: length_row_cells[OF lR g])
  have em: "emit S (py + g) (uv_advance ?e1 uv) (map ?Y ?R) (row_emits e sh ?RU) (row_emits e sh ?RV) ?ot' =
        emit S py uv (map ?Y ?c @ map ?Y ?R) (row_emits e sh [?u] @ row_emits e sh ?RU)
          (row_emits e sh [?v] @ row_emits e sh ?RV) ot"
  proof (rule emit_append_at[where a = g and b = "g * n" and n = ?e1 and k = ?en and len = "length ot"])
    show "length (map ?Y ?c) = g" by (simp only: length_map lc)
    show "length (map ?Y ?R) = g * n" by (simp only: length_map lR)
    show "layout_ok py (g + g * n) uv (?e1 + ?en) (length ot)" by (rule lay)
  qed (simp_all add: length_row_emits lRU)
  have tk: "take (g * Suc n) (drop index in_data) = ?c @ ?R" by (rule take_chunk_Suc)
  have rc: "row_cells OP plane_U g (take (Suc n) (drop a U)) (?c @ ?R) = ?u # ?RU"
    "row_cells OP plane_V g (take (Suc n) (drop a V)) (?c @ ?R) = ?v # ?RV"
    by (rule row_cells_Suc[OF a(1) lc g], rule row_cells_Suc[OF a(2) lc g])
  have re: "row_emits e sh (?u # ?RU) = row_emits e sh [?u] @ row_emits e sh ?RU"
    "row_emits e sh (?v # ?RV) = row_emits e sh [?v] @ row_emits e sh ?RV"
    by (rule row_emits_Cons)+
  have adv: "uv_advance ?en (uv_advance ?e1 uv) = uv_advance (if e then Suc n else 0) uv"
    by (cases e) (simp_all add: uv_advance_add)
  have idx: "index + g + g * n = index + g * Suc n" "py + g + g * n = py + g * Suc n"
    by simp_all
  have ow: "overwrite ?U' (Suc a) ?RU = overwrite U a (?u # ?RU)"
    "overwrite ?V' (Suc a) ?RV = overwrite V a (?v # ?RV)"
    by (rule overwrite_Cons_update[OF a(1)], rule overwrite_Cons_update[OF a(2)])
  show ?case
    unfolding st ih drop_Suc_update em tk rc re adv idx ow map_append ..
qed

subsection \<open>Rows of the 4:2:0 writer\<close>

lemma set_and_next_cells:
  assumes "shape_ok S uv" and "layout_ok py (length ys) uv 1 (length ot)"
  shows "set_and_next S in_u in_v uv (overwrite ot py ys) =
         Some (uv_advance 1 uv,
               emit S py uv ys (row_emits True (shift S) [in_u]) (row_emits True (shift S) [in_v]) ot)"
proof -
  have lo: "layout_ok py 0 uv 1 (length (overwrite ot py ys))"
    using assms(2) by (cases uv) simp_all
  show ?thesis
    unfolding emit_def set_and_next_emit[OF assms(1) lo] by (simp add: row_emits_def)
qed

lemma cell_new_steps:
  "apply_op AddAssign (apply_op Assign c x0) x1 = cell_new Assign c [x0, x1]"
  "apply_op AddAssign (apply_op AddAssign c x0) x1 = cell_new AddAssign c [x0, x1]"
  "apply_op AddAssign (apply_op AddAssign (apply_op AddAssign (apply_op Assign c x0) x1) x2) x3 =
     cell_new Assign c [x0, x1, x2, x3]"
  "apply_op AddAssign (apply_op AddAssign (apply_op AddAssign (apply_op AddAssign c x0) x1) x2) x3 =
     cell_new AddAssign c [x0, x1, x2, x3]"
  by (simp_all add: cell_new_def apply_op_def acc16_def acc_add_def)

lemma row420_odd_pixel:
  assumes "j < in_w" "index < length in_data" "py < length ot"
    and "j div 2 = k" "k < length U" "k < length V"
  shows "row420_odd in_data in_w j f (index, py, uv, U, V, ot) =
         row420_odd in_data in_w (j + 1) (\<not> f)
           (index + 1, py + 1, uv,
            U[k := apply_op (if f then AddAssign else Assign) (U ! k)
                           (pixel_convert plane_U (in_data ! index))],
            V[k := apply_op (if f then AddAssign else Assign) (V ! k)
                           (pixel_convert plane_V (in_data ! index))],
            ot[py := pixel_convert plane_Y (in_data ! index)])"
  using assms
  by (subst row420_odd.simps)
     (auto simp add: load_Some store_Some cell_op_Some drop_bit_eq_div Let_def simp del: One_nat_def)

lemma row420_even_pixel:
  assumes "j < in_w" "index < length in_data" "py < length ot"
    and "j div 2 = k" "k < length U" "k < length V"
  shows "row420_even Tar in_data in_w j False (index, py, uv, U, V, ot) =
         row420_even Tar in_data in_w (j + 1) True
           (index + 1, py + 1, uv,
            U[k := apply_op AddAssign (U ! k) (pixel_convert plane_U (in_data ! index))],
            V[k := apply_op AddAssign (V ! k) (pixel_convert plane_V (in_data ! index))],
            ot[py := pixel_convert plane_Y (in_data ! index)])"
  using assms
  by (subst row420_even.simps)
     (auto simp add: load_Some store_Some cell_op_Some drop_bit_eq_div Let_def simp del: One_nat_def)

lemma row420_even_pixel_emit:
  assumes "j < in_w" "index < length in_data" "py < length ot"
    and "j div 2 = k" "k < length U" "k < length V"
  shows "row420_even Tar in_data in_w j True (index, py, uv, U, V, ot) =
         set_and_next Tar
           (apply_op AddAssign (U ! k) (pixel_convert plane_U (in_data ! index)))
           (apply_op AddAssign (V ! k) (pixel_convert plane_V (in_data ! index)))
           uv (ot[py := pixel_convert plane_Y (in_data ! index)]) \<bind>
         (\<lambda>(p_uv, ot'). row420_even Tar in_data in_w (j + 1) False
           (index + 1, py + 1, p_uv,
            U[k := apply_op AddAssign (U ! k) (pixel_convert plane_U (in_data ! index))],
            V[k := apply_op AddAssign (V ! k) (pixel_convert plane_V (in_data ! index))],
            ot'))"
  using assms
  by (subst row420_even.simps)
     (auto simp add: load_Some store_Some cell_op_Some drop_bit_eq_div Let_def simp del: One_nat_def)

lemma two_updates: "py + 1 < length ot \<Longrightarrow> ot[py := a, py + 1 := b] = overwrite ot py [a, b]"
  by (auto intro!: nth_equalityI simp: nth_overwrite nth_list_update nth_Cons')

lemma row420_odd_cell:
  assumes "2 * a + 2 \<le> in_w" "index + 2 \<le> length in_data" "a < length U" "a < length V"
    and "layout_ok py 2 uv 0 (length ot)"
  shows "row420_odd in_data in_w (2 * a) False (index, py, uv, U, V, ot) =
         row420_odd in_data in_w (2 * a + 2) False
           (index + 2, py + 2, uv_advance 0 uv,
            U[a := cell_new Assign (U ! a) (map (pixel_convert plane_U) (take 2 (drop index in_data)))],
            V[a := cell_new Assign (V ! a) (map (pixel_convert plane_V) (take 2 (drop index in_data)))],
            emit S py uv (map (pixel_convert plane_Y) (take 2 (drop index in_data)))
              (row_emits False sh [cell_new Assign (U ! a)
                 (map (pixel_convert plane_U) (take 2 (drop index in_data)))])
              (row_emits False sh [cell_new Assign (V ! a)
                 (map (pixel_convert plane_V) (take 2 (drop index in_data)))]) ot)"
proof -
  let ?Y = "pixel_convert plane_Y" and ?U = "pixel_convert plane_U" and ?V = "pixel_convert plane_V"
  let ?p0 = "in_data ! index" and ?p1 = "in_data ! (index + 1)"
  have py: "py < length ot" "py + 1 < length ot" using assms(5) by (cases uv; simp)+
  have s1: "row420_odd in_data in_w (2 * a) False (index, py, uv, U, V, ot) =
        row420_odd in_data in_w (2 * a + 1) True
          (index + 1, py + 1, uv, U[a := apply_op Assign (U ! a) (?U ?p0)],
           V[a := apply_op Assign (V ! a) (?V ?p0)], ot[py := ?Y ?p0])"
    using assms py by (subst row420_odd_pixel[where k = a]) simp_all
  have s2: "row420_odd in_data in_w (2 * a + 1) True
          (index + 1, py + 1, uv, U[a := apply_op Assign (U ! a) (?U ?p0)],
           V[a := apply_op Assign (V ! a) (?V ?p0)], ot[py := ?Y ?p0]) =
        row420_odd in_data in_w (2 * a + 2) False
          (index + 2, py + 2, uv, U[a := cell_new Assign (U ! a) [?U ?p0, ?U ?p1]],
           V[a := cell_new Assign (V ! a) [?V ?p0, ?V ?p1]], overwrite ot py [?Y ?p0, ?Y ?p1])"
    using assms py
    by (subst row420_odd_pixel[where k = a])
       (simp_all add: cell_new_steps two_updates add.assoc del: One_nat_def)
  show ?thesis
    unfolding take2_nth[OF assms(2)] s1 s2 by (simp add: row_emits_def)
qed

lemma row420_even_cell:
  assumes "2 * a + 2 \<le> in_w" "index + 2 \<le> length in_data" "a < length U" "a < length V"
    and "layout_ok py 2 uv 1 (length ot)" and "shape_ok Tar uv"
  shows "row420_even Tar in_data in_w (2 * a) False (index, py, uv, U, V, ot) =
         row420_even Tar in_data in_w (2 * a + 2) False
           (index + 2, py + 2, uv_advance 1 uv,
            U[a := cell_new AddAssign (U ! a) (map (pixel_convert plane_U) (take 2 (drop index in_data)))],
            V[a := cell_new AddAssign (V ! a) (map (pixel_convert plane_V) (take 2 (drop index in_data)))],
            emit Tar py uv (map (pixel_convert plane_Y) (take 2 (drop index in_data)))
              (row_emits True (shift Tar) [cell_new AddAssign (U ! a)
                 (map (pixel_convert plane_U) (take 2 (drop index in_data)))])
              (row_emits True (shift Tar) [cell_new AddAssign (V ! a)
                 (map (pixel_convert plane_V) (take 2 (drop index in_data)))]) ot)"
proof -
  let ?Y = "pixel_convert plane_Y" and ?U = "pixel_convert plane_U" and ?V = "pixel_convert plane_V"
  let ?p0 = "in_data ! index" and ?p1 = "in_data ! (index + 1)"
  have py: "py < length ot" "py + 1 < length ot" using assms(5) by (cases uv; simp)+
  have lo: "layout_ok py (length [?Y ?p0, ?Y ?p1]) uv 1 (length ot)"
    using assms(5) by (cases uv) simp_all
  note sn = set_and_next_cells[OF assms(6) lo]
  have s1: "row420_even Tar in_data in_w (2 * a) False (index, py, uv, U, V, ot) =
        row420_even Tar in_data in_w (2 * a + 1) True
          (index + 1, py + 1, uv, U[a := apply_op AddAssign (U ! a) (?U ?p0)],
           V[a := apply_op AddAssign (V ! a) (?V ?p0)], ot[py := ?Y ?p0])"
    using assms py by (subst row420_even_pixel[where k = a]) simp_all
  have s2: "row420_even Tar in_data in_w (2 * a + 1) True
          (index + 1, py + 1, uv, U[a := apply_op AddAssign (U ! a) (?U ?p0)],
           V[a := apply_op AddAssign (V ! a) (?V ?p0)], ot[py := ?Y ?p0]) =
        row420_even Tar in_data in_w (2 * a + 2) False
          (index + 2, py + 2, uv_advance 1 uv, U[a := cell_new AddAssign (U ! a) [?U ?p0, ?U ?p1]],
           V[a := cell_new AddAssign (V ! a) [?V ?p0, ?V ?p1]],
           emit Tar py uv [?Y ?p0, ?Y ?p1]
             (row_emits True (shift Tar) [cell_new AddAssign (U ! a) [?U ?p0, ?U ?p1]])
             (row_emits True (shift Tar) [cell_new AddAssign (V ! a) [?V ?p0, ?V ?p1]]) ot)"
    using assms py
    by (subst row420_even_pixel_emit[where k = a])
       (simp_all add: cell_new_steps two_updates sn add.assoc del: One_nat_def)
  show ?thesis
    unfolding take2_nth[OF assms(2)] s1 s2 by simp
qed

lemma row420_odd_row:
  assumes "in_w = 2 * m" "index + in_w \<le> length in_data" "length U = m" "length V = m"
    and "layout_ok py in_w uv 0 (length ot)"
  shows "row420_odd in_data in_w 0 False (index, py, uv, U, V, ot) =
         Some (index + in_w, py + in_w, uv,
               row_cells Assign plane_U 2 U (take in_w (drop index in_data)),
               row_cells Assign plane_V 2 V (take in_w (drop index in_data)),
               overwrite ot py (map (pixel_convert plane_Y) (take in_w (drop index in_data))))"
proof -
  let ?R = "take (2 * m) (drop index in_data)"
  have lR: "length ?R = 2 * m" using assms by simp
  have "row420_odd in_data in_w (2 * 0) False (index, py, uv, U, V, ot) =
        Some (index + 2 * m, py + 2 * m, uv_advance (if False then m else 0) uv,
              overwrite U 0 (row_cells Assign plane_U 2 (take m (drop 0 U)) ?R),
              overwrite V 0 (row_cells Assign plane_V 2 (take m (drop 0 V)) ?R),
              emit (if shape_ok yuv_YU12 uv then yuv_YU12 else yuv_NV12) py uv (map (pixel_convert plane_Y) ?R)
                (row_emits False 2 (row_cells Assign plane_U 2 (take m (drop 0 U)) ?R))
                (row_emits False 2 (row_cells Assign plane_V 2 (take m (drop 0 V)) ?R)) ot)"
  proof (rule row_of_cells[where F = "\<lambda>j. row420_odd in_data in_w j False" and in_w = in_w])
    show "row420_odd in_data in_w in_w False st = Some st" for st
      by (cases st) (auto simp: row420_odd.simps)
    show "row420_odd in_data in_w (2 * a) False (index, py, uv, U, V, ot) =
       row420_odd in_data in_w (2 * a + 2) False
        (index + 2, py + 2, uv_advance (if False then 1 else 0) uv,
         U[a := cell_new Assign (U ! a) (map (pixel_convert plane_U) (take 2 (drop index in_data)))],
         V[a := cell_new Assign (V ! a) (map (pixel_convert plane_V) (take 2 (drop index in_data)))],
         emit S py uv (map (pixel_convert plane_Y) (take 2 (drop index in_data)))
          (row_emits False 2 [cell_new Assign (U ! a) (map (pixel_convert plane_U) (take 2 (drop index in_data)))])
          (row_emits False 2 [cell_new Assign (V ! a) (map (pixel_convert plane_V) (take 2 (drop index in_data)))]) ot)"
      if "2 * a + 2 \<le> in_w" "index + 2 \<le> length in_data" "a < length U" "a < length V"
        "layout_ok py 2 uv (if False then 1 else 0) (length ot)" for a index py uv U V ot S
      using that by (simp only: if_False row420_odd_cell)
    show "shape_ok (if shape_ok yuv_YU12 uv then yuv_YU12 else yuv_NV12) uv"
      by (cases uv) simp_all
  qed (use assms in simp_all)
  then show ?thesis
    using assms lR
    by (simp add: row_emits_def overwrite_whole row_cells_def length_chunks)
qed

lemma row420_even_row:
  assumes "in_w = 2 * m" "index + in_w \<le> length in_data" "length U = m" "length V = m"
    and "layout_ok py in_w uv m (length ot)" and "shape_ok Tar uv"
  shows "row420_even Tar in_data in_w 0 False (index, py, uv, U, V, ot) =
         Some (index + in_w, py + in_w, uv_advance m uv,
               row_cells AddAssign plane_U 2 U (take in_w (drop index in_data)),
               row_cells AddAssign plane_V 2 V (take in_w (drop index in_data)),
               emit Tar py uv (map (pixel_convert plane_Y) (take in_w (drop index in_data)))
                 (map (\<lambda>x. shr_byte x (shift Tar))
                    (row_cells AddAssign plane_U 2 U (take in_w (drop index in_data))))
                 (map (\<lambda>x. shr_byte x (shift Tar))
                    (row_cells AddAssign plane_V 2 V (take in_w (drop index in_data)))) ot)"
proof -
  let ?R = "take (2 * m) (drop index in_data)"
  have lR: "length ?R = 2 * m" using assms by simp
  have "row420_even Tar in_data in_w (2 * 0) False (index, py, uv, U, V, ot) =
        Some (index + 2 * m, py + 2 * m, uv_advance (if True then m else 0) uv,
              overwrite U 0 (row_cells AddAssign plane_U 2 (take m (drop 0 U)) ?R),
              overwrite V 0 (row_cells AddAssign plane_V 2 (take m (drop 0 V)) ?R),
              emit Tar py uv (map (pixel_convert plane_Y) ?R)
                (row_emits True (shift Tar) (row_cells AddAssign plane_U 2 (take m (drop 0 U)) ?R))
                (row_emits True (shift Tar) (row_cells AddAssign plane_V 2 (take m (drop 0 V)) ?R)) ot)"
  proof (rule row_of_cells[where F = "\<lambda>j. row420_even Tar in_data in_w j False" and in_w = in_w])
    show "row420_even Tar in_data in_w in_w False st = Some st" for st
      by (cases st) (auto simp: row420_even.simps)
    show "row420_even Tar in_data in_w (2 * a) False (index, py, uv, U, V, ot) =
       row420_even Tar in_data in_w (2 * a + 2) False
        (index + 2, py + 2, uv_advance (if True then 1 else 0) uv,
         U[a := cell_new AddAssign (U ! a) (map (pixel_convert plane_U) (take 2 (drop index in_data)))],
         V[a := cell_new AddAssign (V ! a) (map (pixel_convert plane_V) (take 2 (drop index in_data)))],
         emit Tar py uv (map (pixel_convert plane_Y) (take 2 (drop index in_data)))
          (row_emits True (shift Tar) [cell_new AddAssign (U ! a) (map (pixel_convert plane_U) (take 2 (drop index in_data)))])
          (row_emits True (shift Tar) [cell_new AddAssign (V ! a) (map (pixel_convert plane_V) (take 2 (drop index in_data)))]) ot)"
      if "2 * a + 2 \<le> in_w" "index + 2 \<le> length in_data" "a < length U" "a < length V"
        "layout_ok py 2 uv (if True then 1 else 0) (length ot)" "shape_ok Tar uv"
      for a index py uv U V ot
      using that by (simp only: if_True row420_even_cell)
  qed (use assms in simp_all)
  then show ?thesis
    using assms lR
    by (simp add: row_emits_def overwrite_whole row_cells_def length_chunks)
qed

subsection \<open>Groups of rows\<close>

lemma length_group_cells [simp]: "length (group_cells P w g xs index d) = w div g"
  by (simp add: group_cells_def)

lemma chunk_of_row:
  assumes "k * g + g \<le> w"
  shows "take g (drop (k * g) (take w (drop i xs))) = take g (drop (i + k * g) xs)"
proof -
  have "take g (drop (k * g) (take w (drop i xs))) = take g (take (w - k * g) (drop (k * g) (drop i xs)))"
    by (simp add: drop_take)
  also have "\<dots> = take g (drop (i + k * g) xs)"
    using assms by (simp add: min_def add.commute)
  finally show ?thesis .
qed

lemma row_cells_nth:
  assumes "k < m" "length olds = m" "length R = g * m" "0 < g"
  shows "row_cells OP P g olds R ! k =
         cell_new OP (olds ! k) (map (pixel_convert P) (take g (drop (k * g) R)))"
  using assms by (simp add: row_cells_def chunks_def)

lemma length_row_cells_full:
  "length olds = m \<Longrightarrow> length R = g * m \<Longrightarrow> 0 < g \<Longrightarrow> length (row_cells OP P g olds R) = m"
  by (simp add: row_cells_def chunks_def)

lemma group_cells_first:
  assumes "w = g * m" "0 < g" "length U = m" "index + w \<le> length xs"
  shows "row_cells Assign P g U (take w (drop index xs)) = group_cells P w g xs index 1"
proof (rule nth_equalityI)
  show "length (row_cells Assign P g U (take w (drop index xs))) = length (group_cells P w g xs index 1)"
    using assms by (simp add: length_row_cells_full)
next
  fix k assume "k < length (row_cells Assign P g U (take w (drop index xs)))"
  then have k: "k < m" using assms by (simp add: length_row_cells_full)
  then have "k * g + g \<le> w" using assms(1) by (metis Suc_leI mult.commute mult_Suc mult_le_mono2 add.commute)
  then show "row_cells Assign P g U (take w (drop index xs)) ! k = group_cells P w g xs index 1 ! k"
    using assms k
    by (simp add: row_cells_nth[where m = m] group_cells_def cell_new_def chunk_of_row)
qed

lemma group_cells_next:
  assumes "w = g * m" "0 < g" "index + d * w + w \<le> length xs"
  shows "row_cells AddAssign P g (group_cells P w g xs index d) (take w (drop (index + d * w) xs)) =
         group_cells P w g xs index (Suc d)"
proof (rule nth_equalityI)
  show "length (row_cells AddAssign P g (group_cells P w g xs index d) (take w (drop (index + d * w) xs))) =
        length (group_cells P w g xs index (Suc d))"
    using assms by (simp add: length_row_cells_full[where m = m])
next
  fix k
  assume "k < length (row_cells AddAssign P g (group_cells P w g xs index d) (take w (drop (index + d * w) xs)))"
  then have k: "k < m" using assms by (simp add: length_row_cells_full[where m = m])
  then have "k * g + g \<le> w" using assms(1) by (metis Suc_leI mult.commute mult_Suc mult_le_mono2 add.commute)
  then show "row_cells AddAssign P g (group_cells P w g xs index d) (take w (drop (index + d * w) xs)) ! k =
        group_cells P w g xs index (Suc d) ! k"
    using assms k
    by (simp add: row_cells_nth[where m = m] group_cells_def cell_new_def chunk_of_row
        acc16_def acc_add_append)
qed

lemma length_block:
  assumes "index + bh * w \<le> length xs" "c * bw + bw \<le> w"
  shows "length (concat (map (\<lambda>dr. take bw (drop (index + dr * w + c * bw) xs)) [0..<bh])) = bh * bw"
proof -
  have "length (take bw (drop (index + dr * w + c * bw) xs)) = bw" if "dr < bh" for dr
  proof -
    have "Suc dr * w \<le> bh * w" using that by (intro mult_le_mono1) simp
    then have "index + dr * w + c * bw + bw \<le> length xs" using assms by simp
    then show ?thesis by simp
  qed
  then have eq: "map (\<lambda>dr. length (take bw (drop (index + dr * w + c * bw) xs))) [0..<bh] =
             map (\<lambda>dr. bw) [0..<bh]"
    by (intro map_cong refl) (simp del: length_take)
  show ?thesis
    unfolding length_concat map_map comp_def eq by (simp add: sum_list_triv)
qed

lemma group_cells_means:
  assumes "w = g * m" "0 < g" "index + bh * w \<le> length xs" "bh * g = 2 ^ sh" "sh \<le> 8"
  shows "map (\<lambda>x. shr_byte x sh) (group_cells plane_U w g xs index bh) = map mean_U (block_row w bh g xs index)"
    and "map (\<lambda>x. shr_byte x sh) (group_cells plane_V w g xs index bh) = map mean_V (block_row w bh g xs index)"
proof -
  have len: "length (concat (map (\<lambda>dr. take g (drop (index + dr * w + c * g) xs)) [0..<bh])) = 2 ^ sh"
    if "c < w div g" for c
  proof -
    have "c < m" using that assms(1,2) by simp
    then have "c * g + g \<le> w"
      using assms(1) by (metis Suc_leI mult.commute mult_Suc mult_le_mono2 add.commute)
    from length_block[OF assms(3) this] show ?thesis using assms(4) by simp
  qed
  show "map (\<lambda>x. shr_byte x sh) (group_cells plane_U w g xs index bh) = map mean_U (block_row w bh g xs index)"
    unfolding group_cells_def block_row_def map_map comp_def
    by (intro map_cong refl shr_mean_U len assms(5)) simp
  show "map (\<lambda>x. shr_byte x sh) (group_cells plane_V w g xs index bh) = map mean_V (block_row w bh g xs index)"
    unfolding group_cells_def block_row_def map_map comp_def
    by (intro map_cong refl shr_mean_V len assms(5)) simp
qed

lemma length_block_row [simp]: "length (block_row w bh bw xs index) = w div bw"
  by (simp add: block_row_def)

lemma length_block_rows:
  "length (concat (map (\<lambda>r. block_row w bh bw xs (f r)) [0..<H])) = H * (w div bw)"
  by (simp add: length_concat comp_def sum_list_triv)

lemma take_add_drop: "take (a + b) (drop i xs) = take a (drop i xs) @ take b (drop (i + a) xs)"
  by (simp add: take_add add.commute)

text \<open>
  An outer loop that handles one group of \<open>bh\<close> rows per round, and the fewer than
  \<open>bh\<close> rows that may be left, leaves the luma bytes of all its pixels and the
  chroma means of the blocks of all its groups.
\<close>

lemma groups_of_rows:
  fixes G :: "nat \<Rightarrow> row_state \<Rightarrow> 8 word list option"
  assumes step: "\<And>i index py uv U V ot.
      i + bh \<le> h \<Longrightarrow> index + bh * w \<le> length in_data \<Longrightarrow> length U = m \<Longrightarrow> length V = m \<Longrightarrow>
      shape_ok S uv \<Longrightarrow> layout_ok py (bh * w) uv m (length ot) \<Longrightarrow>
      \<exists>U' V'. length U' = m \<and> length V' = m \<and>
        G i (index, py, uv, U, V, ot) =
        G (i + bh) (index + bh * w, py + bh * w, uv_advance m uv, U', V',
          emit S py uv (map (pixel_convert plane_Y) (take (bh * w) (drop index in_data)))
            (map mean_U (block_row w bh bw in_data index))
            (map mean_V (block_row w bh bw in_data index)) ot)"
    and rest: "\<And>i index py uv U V ot t.
      i + t = h \<Longrightarrow> t < bh \<Longrightarrow> index + t * w \<le> length in_data \<Longrightarrow> length U = m \<Longrightarrow>
      length V = m \<Longrightarrow> shape_ok S uv \<Longrightarrow> layout_ok py (t * w) uv 0 (length ot) \<Longrightarrow>
      G i (index, py, uv, U, V, ot) =
        Some (overwrite ot py (map (pixel_convert plane_Y) (take (t * w) (drop index in_data))))"
    and m: "w div bw = m"
    and "i + bh * H + t = h" "t < bh" "index + (bh * H + t) * w \<le> length in_data"
    and "length U = m" "length V = m" "shape_ok S uv"
    and "layout_ok py ((bh * H + t) * w) uv (H * m) (length ot)"
  shows "G i (index, py, uv, U, V, ot) =
         Some (emit S py uv
                 (map (pixel_convert plane_Y) (take ((bh * H + t) * w) (drop index in_data)))
                 (map mean_U (concat (map (\<lambda>r. block_row w bh bw in_data (index + r * bh * w)) [0..<H])))
                 (map mean_V (concat (map (\<lambda>r. block_row w bh bw in_data (index + r * bh * w)) [0..<H])))
                 ot)"
  using assms(4-)
proof (induction H arbitrary: i index py uv U V ot)
  case 0
  then show ?case using rest[of i t index U V uv py ot] by simp
next
  case (Suc H)
  let ?Y = "pixel_convert plane_Y"
  let ?a = "bh * w" and ?b = "(bh * H + t) * w"
  let ?Ya = "map ?Y (take ?a (drop index in_data))"
  let ?Ba = "block_row w bh bw in_data index"
  let ?Yb = "map ?Y (take ?b (drop (index + ?a) in_data))"
  let ?Bb = "concat (map (\<lambda>r. block_row w bh bw in_data (index + ?a + r * bh * w)) [0..<H])"
  let ?ot' = "emit S py uv ?Ya (map mean_U ?Ba) (map mean_V ?Ba) ot"
  have sz: "(bh * Suc H + t) * w = ?a + ?b" by (simp add: algebra_simps)
  have lay: "layout_ok py (?a + ?b) uv (m + H * m) (length ot)"
    using Suc.prems(7) unfolding sz by simp
  have pre: "i + bh \<le> h" "index + ?a \<le> length in_data"
    using Suc.prems(1,3) unfolding sz by simp_all
  from step[OF pre Suc.prems(4,5,6) layout_ok_mono(1)[OF lay]] obtain U' V' where
    l': "length U' = m" "length V' = m" and
    st: "G i (index, py, uv, U, V, ot) =
         G (i + bh) (index + ?a, py + ?a, uv_advance m uv, U', V', ?ot')"
    by blast
  have ih: "G (i + bh) (index + ?a, py + ?a, uv_advance m uv, U', V', ?ot') =
     Some (emit S (py + ?a) (uv_advance m uv) ?Yb (map mean_U ?Bb) (map mean_V ?Bb) ?ot')"
    using Suc.prems(1,2,3,6) l' layout_ok_mono(2)[OF lay] unfolding sz
    by (intro Suc.IH) (simp_all add: add.assoc)
  have len1: "length in_data \<ge> index + ?a + ?b" using Suc.prems(3) unfolding sz by simp
  have em: "emit S (py + ?a) (uv_advance m uv) ?Yb (map mean_U ?Bb) (map mean_V ?Bb) ?ot' =
        emit S py uv (?Ya @ ?Yb) (map mean_U ?Ba @ map mean_U ?Bb) (map mean_V ?Ba @ map mean_V ?Bb) ot"
  proof (rule emit_append_at[where a = ?a and b = ?b and n = m and k = "H * m" and len = "length ot"])
    show "length ?Ya = ?a" using len1 by simp
    show "length ?Yb = ?b" using len1 by simp
    show "length (map mean_U ?Bb) = H * m" by (simp only: length_map length_block_rows m)
    show "layout_ok py (?a + ?b) uv (m + H * m) (length ot)" by (rule lay)
  qed (simp_all add: m)
  have tk: "take ((bh * Suc H + t) * w) (drop index in_data) =
            take ?a (drop index in_data) @ take ?b (drop (index + ?a) in_data)"
    unfolding sz by (rule take_add_drop)
  have "map (\<lambda>r. block_row w bh bw in_data (index + r * bh * w)) [0..<Suc H] =
        ?Ba # map (\<lambda>r. block_row w bh bw in_data (index + ?a + r * bh * w)) [0..<H]"
    by (simp add: map_upt_Suc algebra_simps del: upt_Suc)
  then have bl: "concat (map (\<lambda>r. block_row w bh bw in_data (index + r * bh * w)) [0..<Suc H]) = ?Ba @ ?Bb"
    by (simp only: concat.simps)
  show ?case
    unfolding st ih em tk bl map_append ..
qed

subsection \<open>The 4:2:0 writer\<close>

lemma group_cells_next_num:
  assumes "w = g * m" "0 < g" "index + d * w + w \<le> length xs"
  shows "row_cells AddAssign P g (group_cells P w g xs index d) (take w (drop (index + d * w) xs)) =
         group_cells P w g xs index (d + 1)"
  using group_cells_next[OF assms] by simp

lemma rows420_odd_step:
  "i < in_h \<Longrightarrow> row420_odd in_data in_w 0 False st = Some st' \<Longrightarrow>
   rows420 Tar in_data in_w in_h i False st = rows420 Tar in_data in_w in_h (i + 1) True st'"
  by (subst rows420.simps) simp

lemma rows420_even_step:
  "i < in_h \<Longrightarrow> row420_even Tar in_data in_w 0 False st = Some st' \<Longrightarrow>
   rows420 Tar in_data in_w in_h i True st = rows420 Tar in_data in_w in_h (i + 1) False st'"
  by (subst rows420.simps) simp

lemma rows420_stop:
  "\<not> i < in_h \<Longrightarrow> rows420 Tar in_data in_w in_h i f (index, py, uv, U, V, ot) = Some ot"
  by (subst rows420.simps) simp

lemma rows420_pair:
  assumes "i + 2 \<le> in_h" "in_w = 2 * m" "index + 2 * in_w \<le> length in_data"
    and "length U = m" "length V = m" "shape_ok Tar uv" "shift Tar = 2"
    and "layout_ok py (2 * in_w) uv m (length ot)"
  shows "\<exists>U' V'. length U' = m \<and> length V' = m \<and>
          rows420 Tar in_data in_w in_h i False (index, py, uv, U, V, ot) =
          rows420 Tar in_data in_w in_h (i + 2) False
            (index + 2 * in_w, py + 2 * in_w, uv_advance m uv, U', V',
             emit Tar py uv (map (pixel_convert plane_Y) (take (2 * in_w) (drop index in_data)))
               (map mean_U (block_row in_w 2 2 in_data index))
               (map mean_V (block_row in_w 2 2 in_data index)) ot)"
proof -
  let ?Y = "pixel_convert plane_Y"
  let ?Ra = "take in_w (drop index in_data)" and ?Rb = "take in_w (drop (index + in_w) in_data)"
  let ?Ua = "group_cells plane_U in_w 2 in_data index 1"
  let ?Va = "group_cells plane_V in_w 2 in_data index 1"
  let ?Ub = "group_cells plane_U in_w 2 in_data index 2"
  let ?Vb = "group_cells plane_V in_w 2 in_data index 2"
  let ?ota = "overwrite ot py (map ?Y ?Ra)"
  have lay: "layout_ok py (in_w + in_w) uv (0 + m) (length ot)" using assms(8) by (simp add: mult_2)
  have len: "index + in_w \<le> length in_data" "index + in_w + in_w \<le> length in_data"
    using assms(3) by simp_all
  have wm: "in_w div 2 = m" using assms(2) by simp
  have r1: "row420_odd in_data in_w 0 False (index, py, uv, U, V, ot) =
            Some (index + in_w, py + in_w, uv, ?Ua, ?Va, ?ota)"
    using row420_odd_row[OF assms(2) len(1) assms(4,5) layout_ok_mono(1)[OF lay]]
      group_cells_first[OF assms(2) _ assms(4) len(1)] group_cells_first[OF assms(2) _ assms(5) len(1)]
    by simp
  have lay2: "layout_ok (py + in_w) in_w uv m (length ?ota)"
    using layout_ok_mono(2)[OF lay] by simp
  have nx: "row_cells AddAssign plane_U 2 ?Ua ?Rb = ?Ub" "row_cells AddAssign plane_V 2 ?Va ?Rb = ?Vb"
    using group_cells_next[OF assms(2), of index 1 in_data] len(2)
    by (simp_all add: numeral_2_eq_2)
  have r2: "row420_even Tar in_data in_w 0 False (index + in_w, py + in_w, uv, ?Ua, ?Va, ?ota) =
            Some (index + in_w + in_w, py + in_w + in_w, uv_advance m uv, ?Ub, ?Vb,
                  emit Tar (py + in_w) uv (map ?Y ?Rb) (map (\<lambda>x. shr_byte x (shift Tar)) ?Ub)
                    (map (\<lambda>x. shr_byte x (shift Tar)) ?Vb) ?ota)"
    using row420_even_row[OF assms(2) len(2) _ _ lay2 assms(6), of ?Ua ?Va] wm
    unfolding nx by simp
  have mn: "map (\<lambda>x. shr_byte x (shift Tar)) ?Ub = map mean_U (block_row in_w 2 2 in_data index)"
    "map (\<lambda>x. shr_byte x (shift Tar)) ?Vb = map mean_V (block_row in_w 2 2 in_data index)"
    unfolding assms(7)
    using group_cells_means[OF assms(2) _ assms(3), of 2] by simp_all
  have em: "emit Tar (py + in_w) uv (map ?Y ?Rb) (map mean_U (block_row in_w 2 2 in_data index))
              (map mean_V (block_row in_w 2 2 in_data index)) (emit Tar py uv (map ?Y ?Ra) [] [] ot) =
            emit Tar py uv (map ?Y ?Ra @ map ?Y ?Rb) ([] @ map mean_U (block_row in_w 2 2 in_data index))
              ([] @ map mean_V (block_row in_w 2 2 in_data index)) ot"
  proof (rule emit_append_at[where a = in_w and b = in_w and n = 0 and k = m and len = "length ot"])
    show "length (map ?Y ?Ra) = in_w" using len by simp
    show "length (map ?Y ?Rb) = in_w" using len by simp
    show "layout_ok py (in_w + in_w) uv (0 + m) (length ot)" by (rule lay)
  qed (simp_all add: wm)
  have tk: "take (2 * in_w) (drop index in_data) = ?Ra @ ?Rb"
    using take_add_drop[of in_w in_w index in_data] by (simp add: mult_2)
  have "rows420 Tar in_data in_w in_h i False (index, py, uv, U, V, ot) =
        rows420 Tar in_data in_w in_h (i + 1) True (index + in_w, py + in_w, uv, ?Ua, ?Va, ?ota)"
    using assms(1) by (intro rows420_odd_step r1) simp
  also have "\<dots> = rows420 Tar in_data in_w in_h (i + 1 + 1) False
       (index + in_w + in_w, py + in_w + in_w, uv_advance m uv, ?Ub, ?Vb,
        emit Tar (py + in_w) uv (map ?Y ?Rb) (map (\<lambda>x. shr_byte x (shift Tar)) ?Ub)
          (map (\<lambda>x. shr_byte x (shift Tar)) ?Vb) ?ota)"
    using assms(1) by (intro rows420_even_step r2) simp
  finally have "rows420 Tar in_data in_w in_h i False (index, py, uv, U, V, ot) =
      rows420 Tar in_data in_w in_h (i + 2) False
       (index + 2 * in_w, py + 2 * in_w, uv_advance m uv, ?Ub, ?Vb,
        emit Tar py uv (map ?Y (take (2 * in_w) (drop index in_data)))
          (map mean_U (block_row in_w 2 2 in_data index))
          (map mean_V (block_row in_w 2 2 in_data index)) ot)"
    unfolding mn tk map_append using em by (simp add: mult_2 add.assoc)
  then show ?thesis using wm by (intro exI[of _ ?Ub] exI[of _ ?Vb]) simp
qed

lemma rows420_rest:
  assumes "i + t = in_h" "t < 2" "in_w = 2 * m" "index + t * in_w \<le> length in_data"
    and "length U = m" "length V = m" "layout_ok py (t * in_w) uv 0 (length ot)"
  shows "rows420 Tar in_data in_w in_h i False (index, py, uv, U, V, ot) =
         Some (overwrite ot py (map (pixel_convert plane_Y) (take (t * in_w) (drop index in_data))))"
proof (cases "t = 0")
  case True
  then show ?thesis using assms(1) by (simp add: rows420_stop overwrite_Nil)
next
  case False
  then have t: "t = 1" using assms(2) by simp
  have r1: "row420_odd in_data in_w 0 False (index, py, uv, U, V, ot) =
         Some (index + in_w, py + in_w, uv,
               row_cells Assign plane_U 2 U (take in_w (drop index in_data)),
               row_cells Assign plane_V 2 V (take in_w (drop index in_data)),
               overwrite ot py (map (pixel_convert plane_Y) (take in_w (drop index in_data))))"
    using assms(4,7) t by (intro row420_odd_row[OF assms(3) _ assms(5,6)]) simp_all
  have "rows420 Tar in_data in_w in_h i False (index, py, uv, U, V, ot) =
        rows420 Tar in_data in_w in_h (i + 1) True (index + in_w, py + in_w, uv,
               row_cells Assign plane_U 2 U (take in_w (drop index in_data)),
               row_cells Assign plane_V 2 V (take in_w (drop index in_data)),
               overwrite ot py (map (pixel_convert plane_Y) (take in_w (drop index in_data))))"
    using assms(1) t by (intro rows420_odd_step r1) simp
  also have "\<dots> = Some (overwrite ot py (map (pixel_convert plane_Y) (take in_w (drop index in_data))))"
    using assms(1) t by (intro rows420_stop) simp
  finally show ?thesis using t by simp
qed

lemma rows420_all:
  assumes "in_w = 2 * m" "2 * H + t = in_h" "t < 2" "in_h * in_w \<le> length in_data"
    and "length U = m" "length V = m" "shape_ok Tar uv" "shift Tar = 2"
    and "layout_ok py (in_h * in_w) uv (H * m) (length ot)"
  shows "rows420 Tar in_data in_w in_h 0 False (0, py, uv, U, V, ot) =
         Some (emit Tar py uv (map (pixel_convert plane_Y) (take (in_h * in_w) in_data))
                 (map mean_U (blocks in_w in_h 2 2 in_data))
                 (map mean_V (blocks in_w in_h 2 2 in_data)) ot)"
proof -
  have hd: "in_h div 2 = H" using assms(2,3) by auto
  have "rows420 Tar in_data in_w in_h 0 False (0, py, uv, U, V, ot) =
        Some (emit Tar py uv
                 (map (pixel_convert plane_Y) (take ((2 * H + t) * in_w) (drop 0 in_data)))
                 (map mean_U (concat (map (\<lambda>r. block_row in_w 2 2 in_data (0 + r * 2 * in_w)) [0..<H])))
                 (map mean_V (concat (map (\<lambda>r. block_row in_w 2 2 in_data (0 + r * 2 * in_w)) [0..<H])))
                 ot)"
  proof (rule groups_of_rows[where G = "\<lambda>i st. rows420 Tar in_data in_w in_h i False st"
        and h = in_h and m = m and S = Tar])
    fix i index py uv and U V :: "16 word list" and ot :: "8 word list"
    assume "i + 2 \<le> in_h" "index + 2 * in_w \<le> length in_data" "length U = m" "length V = m"
      "shape_ok Tar uv" "layout_ok py (2 * in_w) uv m (length ot)"
    then show "\<exists>U' V'. length U' = m \<and> length V' = m \<and>
        rows420 Tar in_data in_w in_h i False (index, py, uv, U, V, ot) =
        rows420 Tar in_data in_w in_h (i + 2) False
          (index + 2 * in_w, py + 2 * in_w, uv_advance m uv, U', V',
           emit Tar py uv (map (pixel_convert plane_Y) (take (2 * in_w) (drop index in_data)))
             (map mean_U (block_row in_w 2 2 in_data index))
             (map mean_V (block_row in_w 2 2 in_data index)) ot)"
      using assms(1,8) by (intro rows420_pair)
  next
    fix i index py uv t and U V :: "16 word list" and ot :: "8 word list"
    assume "i + t = in_h" "t < 2" "index + t * in_w \<le> length in_data" "length U = m" "length V = m"
      "shape_ok Tar uv" "layout_ok py (t * in_w) uv 0 (length ot)"
    then show "rows420 Tar in_data in_w in_h i False (index, py, uv, U, V, ot) =
        Some (overwrite ot py (map (pixel_convert plane_Y) (take (t * in_w) (drop index in_data))))"
      using assms(1) by (intro rows420_rest)
  next
    show "in_w div 2 = m" using assms(1) by simp
    show "0 + 2 * H + t = in_h" using assms(2) by simp
    show "t < 2" by (rule assms(3))
    show "0 + (2 * H + t) * in_w \<le> length in_data" using assms(2,4) by simp
    show "length U = m" "length V = m" "shape_ok Tar uv" by (rule assms)+
    show "layout_ok py ((2 * H + t) * in_w) uv (H * m) (length ot)" using assms(2,9) by simp
  qed
  then show ?thesis using assms(2) by (simp add: blocks_def hd)
qed

subsection \<open>Rows of the 4:1:0 writer\<close>

lemma row410_first_pixel:
  assumes "j < in_w" "index < length in_data" "py < length ot"
    and "j div 4 = k" "k < length U" "k < length V"
  shows "row410_first in_data in_w j fl (index, py, uv, U, V, ot) =
         row410_first in_data in_w (j + 1) (if fl = 1 then 2 else if fl = 4 then 1 else fl + 1)
           (index + 1, py + 1, uv,
            U[k := apply_op (if fl = 1 then Assign else AddAssign) (U ! k)
                           (pixel_convert plane_U (in_data ! index))],
            V[k := apply_op (if fl = 1 then Assign else AddAssign) (V ! k)
                           (pixel_convert plane_V (in_data ! index))],
            ot[py := pixel_convert plane_Y (in_data ! index)])"
  using assms
  by (subst row410_first.simps)
     (auto simp add: load_Some store_Some cell_op_Some drop_bit_eq_div Let_def simp del: One_nat_def)

lemma row410_mid_pixel:
  assumes "j < in_w" "index < length in_data" "py < length ot"
    and "j div 4 = k" "k < length U" "k < length V"
  shows "row410_mid in_data in_w j (index, py, uv, U, V, ot) =
         row410_mid in_data in_w (j + 1)
           (index + 1, py + 1, uv,
            U[k := apply_op AddAssign (U ! k) (pixel_convert plane_U (in_data ! index))],
            V[k := apply_op AddAssign (V ! k) (pixel_convert plane_V (in_data ! index))],
            ot[py := pixel_convert plane_Y (in_data ! index)])"
  using assms
  by (subst row410_mid.simps)
     (auto simp add: load_Some store_Some cell_op_Some drop_bit_eq_div Let_def simp del: One_nat_def)

lemma row410_last_pixel:
  assumes "j < in_w" "index < length in_data" "py < length ot"
    and "j div 4 = k" "k < length U" "k < length V" "fl \<noteq> 4"
  shows "row410_last Tar in_data in_w j fl (index, py, uv, U, V, ot) =
         row410_last Tar in_data in_w (j + 1) (fl + 1)
           (index + 1, py + 1, uv,
            U[k := apply_op AddAssign (U ! k) (pixel_convert plane_U (in_data ! index))],
            V[k := apply_op AddAssign (V ! k) (pixel_convert plane_V (in_data ! index))],
            ot[py := pixel_convert plane_Y (in_data ! index)])"
  using assms
  by (subst row410_last.simps)
     (auto simp add: load_Some store_Some cell_op_Some drop_bit_eq_div Let_def simp del: One_nat_def)

lemma row410_last_pixel_emit:
  assumes "j < in_w" "index < length in_data" "py < length ot"
    and "j div 4 = k" "k < length U" "k < length V"
  shows "row410_last Tar in_data in_w j 4 (index, py, uv, U, V, ot) =
         set_and_next Tar
           (apply_op AddAssign (U ! k) (pixel_convert plane_U (in_data ! index)))
           (apply_op AddAssign (V ! k) (pixel_convert plane_V (in_data ! index)))
           uv (ot[py := pixel_convert plane_Y (in_data ! index)]) \<bind>
         (\<lambda>(p_uv, ot'). row410_last Tar in_data in_w (j + 1) 1
           (index + 1, py + 1, p_uv,
            U[k := apply_op AddAssign (U ! k) (pixel_convert plane_U (in_data ! index))],
            V[k := apply_op AddAssign (V ! k) (pixel_convert plane_V (in_data ! index))],
            ot'))"
  using assms
  by (subst row410_last.simps)
     (auto simp add: load_Some store_Some cell_op_Some drop_bit_eq_div Let_def simp del: One_nat_def)

lemma four_updates:
  "py + 3 < length ot \<Longrightarrow>
   ot[py := a, py + 1 := b, py + 2 := c, py + 3 := d] = overwrite ot py [a, b, c, d]"
  by (auto intro!: nth_equalityI simp: nth_overwrite nth_list_update nth_Cons' numeral_3_eq_3)

lemma three_updates:
  "py + 2 < length ot \<Longrightarrow>
   ot[py := a, py + 1 := b, py + 2 := c] = overwrite ot py [a, b, c]"
  by (auto intro!: nth_equalityI simp: nth_overwrite nth_list_update nth_Cons')


lemma four_updates_Suc:
  "Suc (Suc (Suc py)) < length ot \<Longrightarrow>
   ot[py := a, Suc py := b, Suc (Suc py) := c, Suc (Suc (Suc py)) := d] = overwrite ot py [a, b, c, d]"
  by (auto intro!: nth_equalityI simp: nth_overwrite nth_list_update nth_Cons')

lemma take4_nth_Suc:
  "Suc (Suc (Suc (Suc i))) \<le> length xs \<Longrightarrow>
   take 4 (drop i xs) = [xs ! i, xs ! Suc i, xs ! Suc (Suc i), xs ! Suc (Suc (Suc i))]"
  using take4_nth[of i xs] by (simp add: numeral_3_eq_3)

lemma Suc4: "n + 4 = Suc (Suc (Suc (Suc n)))"
  by simp

lemma div4_cell:
  "(4 * a) div 4 = (a::nat)" "Suc (4 * a) div 4 = a" "Suc (Suc (4 * a)) div 4 = a"
  "Suc (Suc (Suc (4 * a))) div 4 = a"
  by simp_all

lemma row410_mid_cell:
  assumes "4 * a + 4 \<le> in_w" "index + 4 \<le> length in_data" "a < length U" "a < length V"
    and "layout_ok py 4 uv 0 (length ot)"
  shows "row410_mid in_data in_w (4 * a) (index, py, uv, U, V, ot) =
         row410_mid in_data in_w (4 * a + 4)
           (index + 4, py + 4, uv_advance 0 uv,
            U[a := cell_new AddAssign (U ! a) (map (pixel_convert plane_U) (take 4 (drop index in_data)))],
            V[a := cell_new AddAssign (V ! a) (map (pixel_convert plane_V) (take 4 (drop index in_data)))],
            emit S py uv (map (pixel_convert plane_Y) (take 4 (drop index in_data)))
              (row_emits False sh [cell_new AddAssign (U ! a)
                 (map (pixel_convert plane_U) (take 4 (drop index in_data)))])
              (row_emits False sh [cell_new AddAssign (V ! a)
                 (map (pixel_convert plane_V) (take 4 (drop index in_data)))]) ot)"
proof -
  let ?Y = "pixel_convert plane_Y" and ?U = "pixel_convert plane_U" and ?V = "pixel_convert plane_V"
  let ?p0 = "in_data ! index" and ?p1 = "in_data ! Suc index"
  let ?p2 = "in_data ! Suc (Suc index)" and ?p3 = "in_data ! Suc (Suc (Suc index))"
  let ?u0 = "apply_op AddAssign (U ! a) (?U ?p0)" and ?v0 = "apply_op AddAssign (V ! a) (?V ?p0)"
  let ?u1 = "apply_op AddAssign ?u0 (?U ?p1)" and ?v1 = "apply_op AddAssign ?v0 (?V ?p1)"
  let ?u2 = "apply_op AddAssign ?u1 (?U ?p2)" and ?v2 = "apply_op AddAssign ?v1 (?V ?p2)"
  let ?u3 = "apply_op AddAssign ?u2 (?U ?p3)" and ?v3 = "apply_op AddAssign ?v2 (?V ?p3)"
  let ?o0 = "ot[py := ?Y ?p0]"
  let ?o1 = "?o0[Suc py := ?Y ?p1]"
  let ?o2 = "?o1[Suc (Suc py) := ?Y ?p2]"
  let ?o3 = "?o2[Suc (Suc (Suc py)) := ?Y ?p3]"
  have py: "Suc (Suc (Suc py)) < length ot" using assms(5) by (cases uv; simp)
  have ix: "Suc (Suc (Suc (Suc index))) \<le> length in_data" using assms(2) by simp
  have s1: "row410_mid in_data in_w (4 * a) (index, py, uv, U, V, ot) =
        row410_mid in_data in_w (Suc (4 * a)) (Suc index, Suc py, uv, U[a := ?u0], V[a := ?v0], ?o0)"
    using assms py by (subst row410_mid_pixel[where k = a]) simp_all
  have s2: "row410_mid in_data in_w (Suc (4 * a)) (Suc index, Suc py, uv, U[a := ?u0], V[a := ?v0], ?o0) =
        row410_mid in_data in_w (Suc (Suc (4 * a)))
          (Suc (Suc index), Suc (Suc py), uv, U[a := ?u1], V[a := ?v1], ?o1)"
    using assms py by (subst row410_mid_pixel[where k = a]) simp_all
  have s3: "row410_mid in_data in_w (Suc (Suc (4 * a)))
          (Suc (Suc index), Suc (Suc py), uv, U[a := ?u1], V[a := ?v1], ?o1) =
        row410_mid in_data in_w (Suc (Suc (Suc (4 * a))))
          (Suc (Suc (Suc index)), Suc (Suc (Suc py)), uv, U[a := ?u2], V[a := ?v2], ?o2)"
    using assms py by (subst row410_mid_pixel[where k = a]) simp_all
  have s4: "row410_mid in_data in_w (Suc (Suc (Suc (4 * a))))
          (Suc (Suc (Suc index)), Suc (Suc (Suc py)), uv, U[a := ?u2], V[a := ?v2], ?o2) =
        row410_mid in_data in_w (Suc (Suc (Suc (Suc (4 * a)))))
          (Suc (Suc (Suc (Suc index))), Suc (Suc (Suc (Suc py))), uv, U[a := ?u3], V[a := ?v3], ?o3)"
    using assms py by (subst row410_mid_pixel[where k = a]) simp_all
  show ?thesis
    unfolding Suc4 take4_nth_Suc[OF ix] s1 s2 s3 s4 four_updates_Suc[OF py]
    by (simp add: row_emits_def emit_def cell_new_def apply_op_def acc16_def acc_add_def)
qed

lemma row410_first_cell:
  assumes "4 * a + 4 \<le> in_w" "index + 4 \<le> length in_data" "a < length U" "a < length V"
    and "layout_ok py 4 uv 0 (length ot)"
  shows "row410_first in_data in_w (4 * a) 1 (index, py, uv, U, V, ot) =
         row410_first in_data in_w (4 * a + 4) 1
           (index + 4, py + 4, uv_advance 0 uv,
            U[a := cell_new Assign (U ! a) (map (pixel_convert plane_U) (take 4 (drop index in_data)))],
            V[a := cell_new Assign (V ! a) (map (pixel_convert plane_V) (take 4 (drop index in_data)))],
            emit S py uv (map (pixel_convert plane_Y) (take 4 (drop index in_data)))
              (row_emits False sh [cell_new Assign (U ! a)
                 (map (pixel_convert plane_U) (take 4 (drop index in_data)))])
              (row_emits False sh [cell_new Assign (V ! a)
                 (map (pixel_convert plane_V) (take 4 (drop index in_data)))]) ot)"
proof -
  let ?Y = "pixel_convert plane_Y" and ?U = "pixel_convert plane_U" and ?V = "pixel_convert plane_V"
  let ?p0 = "in_data ! index" and ?p1 = "in_data ! Suc index"
  let ?p2 = "in_data ! Suc (Suc index)" and ?p3 = "in_data ! Suc (Suc (Suc index))"
  let ?u0 = "apply_op Assign (U ! a) (?U ?p0)" and ?v0 = "apply_op Assign (V ! a) (?V ?p0)"
  let ?u1 = "apply_op AddAssign ?u0 (?U ?p1)" and ?v1 = "apply_op AddAssign ?v0 (?V ?p1)"
  let ?u2 = "apply_op AddAssign ?u1 (?U ?p2)" and ?v2 = "apply_op AddAssign ?v1 (?V ?p2)"
  let ?u3 = "apply_op AddAssign ?u2 (?U ?p3)" and ?v3 = "apply_op AddAssign ?v2 (?V ?p3)"
  let ?o0 = "ot[py := ?Y ?p0]"
  let ?o1 = "?o0[Suc py := ?Y ?p1]"
  let ?o2 = "?o1[Suc (Suc py) := ?Y ?p2]"
  let ?o3 = "?o2[Suc (Suc (Suc py)) := ?Y ?p3]"
  have py: "Suc (Suc (Suc py)) < length ot" using assms(5) by (cases uv; simp)
  have ix: "Suc (Suc (Suc (Suc index))) \<le> length in_data" using assms(2) by simp
  have s1: "row410_first in_data in_w (4 * a) 1 (index, py, uv, U, V, ot) =
        row410_first in_data in_w (Suc (4 * a)) 2 (Suc index, Suc py, uv, U[a := ?u0], V[a := ?v0], ?o0)"
    using assms py by (subst row410_first_pixel[where k = a]) simp_all
  have s2: "row410_first in_data in_w (Suc (4 * a)) 2 (Suc index, Suc py, uv, U[a := ?u0], V[a := ?v0], ?o0) =
        row410_first in_data in_w (Suc (Suc (4 * a))) 3
          (Suc (Suc index), Suc (Suc py), uv, U[a := ?u1], V[a := ?v1], ?o1)"
    using assms py by (subst row410_first_pixel[where k = a]) simp_all
  have s3: "row410_first in_data in_w (Suc (Suc (4 * a))) 3
          (Suc (Suc index), Suc (Suc py), uv, U[a := ?u1], V[a := ?v1], ?o1) =
        row410_first in_data in_w (Suc (Suc (Suc (4 * a)))) 4
          (Suc (Suc (Suc index)), Suc (Suc (Suc py)), uv, U[a := ?u2], V[a := ?v2], ?o2)"
    using assms py by (subst row410_first_pixel[where k = a]) simp_all
  have s4: "row410_first in_data in_w (Suc (Suc (Suc (4 * a)))) 4
          (Suc (Suc (Suc index)), Suc (Suc (Suc py)), uv, U[a := ?u2], V[a := ?v2], ?o2) =
        row410_first in_data in_w (Suc (Suc (Suc (Suc (4 * a))))) 1
          (Suc (Suc (Suc (Suc index))), Suc (Suc (Suc (Suc py))), uv, U[a := ?u3], V[a := ?v3], ?o3)"
    using assms py by (subst row410_first_pixel[where k = a]) simp_all
  show ?thesis
    unfolding Suc4 take4_nth_Suc[OF ix] s1 s2 s3 s4 four_updates_Suc[OF py]
    by (simp add: row_emits_def emit_def cell_new_def apply_op_def acc16_def acc_add_def)
qed



lemma row410_last_cell:
  assumes "4 * a + 4 \<le> in_w" "index + 4 \<le> length in_data" "a < length U" "a < length V"
    and "layout_ok py 4 uv 1 (length ot)" and "shape_ok Tar uv"
  shows "row410_last Tar in_data in_w (4 * a) 1 (index, py, uv, U, V, ot) =
         row410_last Tar in_data in_w (4 * a + 4) 1
           (index + 4, py + 4, uv_advance 1 uv,
            U[a := cell_new AddAssign (U ! a) (map (pixel_convert plane_U) (take 4 (drop index in_data)))],
            V[a := cell_new AddAssign (V ! a) (map (pixel_convert plane_V) (take 4 (drop index in_data)))],
            emit Tar py uv (map (pixel_convert plane_Y) (take 4 (drop index in_data)))
              (row_emits True (shift Tar) [cell_new AddAssign (U ! a)
                 (map (pixel_convert plane_U) (take 4 (drop index in_data)))])
              (row_emits True (shift Tar) [cell_new AddAssign (V ! a)
                 (map (pixel_convert plane_V) (take 4 (drop index in_data)))]) ot)"
proof -
  let ?Y = "pixel_convert plane_Y" and ?U = "pixel_convert plane_U" and ?V = "pixel_convert plane_V"
  let ?p0 = "in_data ! index" and ?p1 = "in_data ! Suc index"
  let ?p2 = "in_data ! Suc (Suc index)" and ?p3 = "in_data ! Suc (Suc (Suc index))"
  let ?u0 = "apply_op AddAssign (U ! a) (?U ?p0)" and ?v0 = "apply_op AddAssign (V ! a) (?V ?p0)"
  let ?u1 = "apply_op AddAssign ?u0 (?U ?p1)" and ?v1 = "apply_op AddAssign ?v0 (?V ?p1)"
  let ?u2 = "apply_op AddAssign ?u1 (?U ?p2)" and ?v2 = "apply_op AddAssign ?v1 (?V ?p2)"
  let ?u3 = "apply_op AddAssign ?u2 (?U ?p3)" and ?v3 = "apply_op AddAssign ?v2 (?V ?p3)"
  let ?o0 = "ot[py := ?Y ?p0]"
  let ?o1 = "?o0[Suc py := ?Y ?p1]"
  let ?o2 = "?o1[Suc (Suc py) := ?Y ?p2]"
  have py: "Suc (Suc (Suc py)) < length ot" using assms(5) by (cases uv; simp)
  have ix: "Suc (Suc (Suc (Suc index))) \<le> length in_data" using assms(2) by simp
  have lo: "layout_ok py (length [?Y ?p0, ?Y ?p1, ?Y ?p2, ?Y ?p3]) uv 1 (length ot)"
    using assms(5) by (cases uv) simp_all
  note sn = set_and_next_cells[OF assms(6) lo]
  have s1: "row410_last Tar in_data in_w (4 * a) 1 (index, py, uv, U, V, ot) =
        row410_last Tar in_data in_w (Suc (4 * a)) 2 (Suc index, Suc py, uv, U[a := ?u0], V[a := ?v0], ?o0)"
    using assms py by (subst row410_last_pixel[where k = a]) (simp_all add: numeral_2_eq_2)
  have s2: "row410_last Tar in_data in_w (Suc (4 * a)) 2 (Suc index, Suc py, uv, U[a := ?u0], V[a := ?v0], ?o0) =
        row410_last Tar in_data in_w (Suc (Suc (4 * a))) 3
          (Suc (Suc index), Suc (Suc py), uv, U[a := ?u1], V[a := ?v1], ?o1)"
    using assms py by (subst row410_last_pixel[where k = a]) simp_all
  have s3: "row410_last Tar in_data in_w (Suc (Suc (4 * a))) 3
          (Suc (Suc index), Suc (Suc py), uv, U[a := ?u1], V[a := ?v1], ?o1) =
        row410_last Tar in_data in_w (Suc (Suc (Suc (4 * a)))) 4
          (Suc (Suc (Suc index)), Suc (Suc (Suc py)), uv, U[a := ?u2], V[a := ?v2], ?o2)"
    using assms py by (subst row410_last_pixel[where k = a]) simp_all
  have s4: "row410_last Tar in_data in_w (Suc (Suc (Suc (4 * a)))) 4
          (Suc (Suc (Suc index)), Suc (Suc (Suc py)), uv, U[a := ?u2], V[a := ?v2], ?o2) =
        row410_last Tar in_data in_w (Suc (Suc (Suc (Suc (4 * a))))) 1
          (Suc (Suc (Suc (Suc index))), Suc (Suc (Suc (Suc py))), uv_advance 1 uv,
           U[a := ?u3], V[a := ?v3],
           emit Tar py uv [?Y ?p0, ?Y ?p1, ?Y ?p2, ?Y ?p3]
             (row_emits True (shift Tar) [?u3]) (row_emits True (shift Tar) [?v3]) ot)"
    using assms py
    by (subst row410_last_pixel_emit[where k = a]) (simp_all add: four_updates_Suc sn)
  show ?thesis
    unfolding Suc4 take4_nth_Suc[OF ix] s1 s2 s3 s4
    by (simp add: cell_new_def apply_op_def acc16_def acc_add_def)
qed

lemma row410_first_row:
  assumes "in_w = 4 * m" "index + in_w \<le> length in_data" "length U = m" "length V = m"
    and "layout_ok py in_w uv 0 (length ot)"
  shows "row410_first in_data in_w 0 1 (index, py, uv, U, V, ot) =
         Some (index + in_w, py + in_w, uv,
               row_cells Assign plane_U 4 U (take in_w (drop index in_data)),
               row_cells Assign plane_V 4 V (take in_w (drop index in_data)),
               overwrite ot py (map (pixel_convert plane_Y) (take in_w (drop index in_data))))"
proof -
  let ?R = "take (4 * m) (drop index in_data)"
  have lR: "length ?R = 4 * m" using assms by simp
  have "row410_first in_data in_w (4 * 0) 1 (index, py, uv, U, V, ot) =
        Some (index + 4 * m, py + 4 * m, uv_advance (if False then m else 0) uv,
              overwrite U 0 (row_cells Assign plane_U 4 (take m (drop 0 U)) ?R),
              overwrite V 0 (row_cells Assign plane_V 4 (take m (drop 0 V)) ?R),
              emit (if shape_ok yuv_YUV9 uv then yuv_YUV9 else yuv_NV12) py uv (map (pixel_convert plane_Y) ?R)
                (row_emits False 4 (row_cells Assign plane_U 4 (take m (drop 0 U)) ?R))
                (row_emits False 4 (row_cells Assign plane_V 4 (take m (drop 0 V)) ?R)) ot)"
  proof (rule row_of_cells[where F = "\<lambda>j. row410_first in_data in_w j 1" and in_w = in_w])
    show "row410_first in_data in_w in_w 1 st = Some st" for st
      by (cases st) (auto simp: row410_first.simps)
    show "row410_first in_data in_w (4 * a) 1 (index, py, uv, U, V, ot) =
       row410_first in_data in_w (4 * a + 4) 1
        (index + 4, py + 4, uv_advance (if False then 1 else 0) uv,
         U[a := cell_new Assign (U ! a) (map (pixel_convert plane_U) (take 4 (drop index in_data)))],
         V[a := cell_new Assign (V ! a) (map (pixel_convert plane_V) (take 4 (drop index in_data)))],
         emit S py uv (map (pixel_convert plane_Y) (take 4 (drop index in_data)))
          (row_emits False 4 [cell_new Assign (U ! a) (map (pixel_convert plane_U) (take 4 (drop index in_data)))])
          (row_emits False 4 [cell_new Assign (V ! a) (map (pixel_convert plane_V) (take 4 (drop index in_data)))]) ot)"
      if "4 * a + 4 \<le> in_w" "index + 4 \<le> length in_data" "a < length U" "a < length V"
        "layout_ok py 4 uv (if False then 1 else 0) (length ot)" for a index py uv U V ot S
      using that by (simp only: if_False row410_first_cell)
    show "shape_ok (if shape_ok yuv_YUV9 uv then yuv_YUV9 else yuv_NV12) uv"
      by (cases uv) simp_all
  qed (use assms in simp_all)
  then show ?thesis
    using assms lR
    by (simp add: row_emits_def overwrite_whole row_cells_def length_chunks)
qed

lemma row410_mid_row:
  assumes "in_w = 4 * m" "index + in_w \<le> length in_data" "length U = m" "length V = m"
    and "layout_ok py in_w uv 0 (length ot)"
  shows "row410_mid in_data in_w 0 (index, py, uv, U, V, ot) =
         Some (index + in_w, py + in_w, uv,
               row_cells AddAssign plane_U 4 U (take in_w (drop index in_data)),
               row_cells AddAssign plane_V 4 V (take in_w (drop index in_data)),
               overwrite ot py (map (pixel_convert plane_Y) (take in_w (drop index in_data))))"
proof -
  let ?R = "take (4 * m) (drop index in_data)"
  have lR: "length ?R = 4 * m" using assms by simp
  have "row410_mid in_data in_w (4 * 0) (index, py, uv, U, V, ot) =
        Some (index + 4 * m, py + 4 * m, uv_advance (if False then m else 0) uv,
              overwrite U 0 (row_cells AddAssign plane_U 4 (take m (drop 0 U)) ?R),
              overwrite V 0 (row_cells AddAssign plane_V 4 (take m (drop 0 V)) ?R),
              emit (if shape_ok yuv_YUV9 uv then yuv_YUV9 else yuv_NV12) py uv (map (pixel_convert plane_Y) ?R)
                (row_emits False 4 (row_cells AddAssign plane_U 4 (take m (drop 0 U)) ?R))
                (row_emits False 4 (row_cells AddAssign plane_V 4 (take m (drop 0 V)) ?R)) ot)"
  proof (rule row_of_cells[where F = "\<lambda>j. row410_mid in_data in_w j" and in_w = in_w])
    show "row410_mid in_data in_w in_w st = Some st" for st
      by (cases st) (auto simp: row410_mid.simps)
    show "row410_mid in_data in_w (4 * a) (index, py, uv, U, V, ot) =
       row410_mid in_data in_w (4 * a + 4)
        (index + 4, py + 4, uv_advance (if False then 1 else 0) uv,
         U[a := cell_new AddAssign (U ! a) (map (pixel_convert plane_U) (take 4 (drop index in_data)))],
         V[a := cell_new AddAssign (V ! a) (map (pixel_convert plane_V) (take 4 (drop index in_data)))],
         emit S py uv (map (pixel_convert plane_Y) (take 4 (drop index in_data)))
          (row_emits False 4 [cell_new AddAssign (U ! a) (map (pixel_convert plane_U) (take 4 (drop index in_data)))])
          (row_emits False 4 [cell_new AddAssign (V ! a) (map (pixel_convert plane_V) (take 4 (drop index in_data)))]) ot)"
      if "4 * a + 4 \<le> in_w" "index + 4 \<le> length in_data" "a < length U" "a < length V"
        "layout_ok py 4 uv (if False then 1 else 0) (length ot)" for a index py uv U V ot S
      using that by (simp only: if_False row410_mid_cell)
    show "shape_ok (if shape_ok yuv_YUV9 uv then yuv_YUV9 else yuv_NV12) uv"
      by (cases uv) simp_all
  qed (use assms in simp_all)
  then show ?thesis
    using assms lR
    by (simp add: row_emits_def overwrite_whole row_cells_def length_chunks)
qed

lemma row410_last_row:
  assumes "in_w = 4 * m" "index + in_w \<le> length in_data" "length U = m" "length V = m"
    and "layout_ok py in_w uv m (length ot)" and "shape_ok Tar uv"
  shows "row410_last Tar in_data in_w 0 1 (index, py, uv, U, V, ot) =
         Some (index + in_w, py + in_w, uv_advance m uv,
               row_cells AddAssign plane_U 4 U (take in_w (drop index in_data)),
               row_cells AddAssign plane_V 4 V (take in_w (drop index in_data)),
               emit Tar py uv (map (pixel_convert plane_Y) (take in_w (drop index in_data)))
                 (map (\<lambda>x. shr_byte x (shift Tar))
                    (row_cells AddAssign plane_U 4 U (take in_w (drop index in_data))))
                 (map (\<lambda>x. shr_byte x (shift Tar))
                    (row_cells AddAssign plane_V 4 V (take in_w (drop index in_data)))) ot)"
proof -
  let ?R = "take (4 * m) (drop index in_data)"
  have lR: "length ?R = 4 * m" using assms by simp
  have "row410_last Tar in_data in_w (4 * 0) 1 (index, py, uv, U, V, ot) =
        Some (index + 4 * m, py + 4 * m, uv_advance (if True then m else 0) uv,
              overwrite U 0 (row_cells AddAssign plane_U 4 (take m (drop 0 U)) ?R),
              overwrite V 0 (row_cells AddAssign plane_V 4 (take m (drop 0 V)) ?R),
              emit Tar py uv (map (pixel_convert plane_Y) ?R)
                (row_emits True (shift Tar) (row_cells AddAssign plane_U 4 (take m (drop 0 U)) ?R))
                (row_emits True (shift Tar) (row_cells AddAssign plane_V 4 (take m (drop 0 V)) ?R)) ot)"
  proof (rule row_of_cells[where F = "\<lambda>j. row410_last Tar in_data in_w j 1" and in_w = in_w])
    show "row410_last Tar in_data in_w in_w 1 st = Some st" for st
      by (cases st) (auto simp: row410_last.simps)
    show "row410_last Tar in_data in_w (4 * a) 1 (index, py, uv, U, V, ot) =
       row410_last Tar in_data in_w (4 * a + 4) 1
        (index + 4, py + 4, uv_advance (if True then 1 else 0) uv,
         U[a := cell_new AddAssign (U ! a) (map (pixel_convert plane_U) (take 4 (drop index in_data)))],
         V[a := cell_new AddAssign (V ! a) (map (pixel_convert plane_V) (take 4 (drop index in_data)))],
         emit Tar py uv (map (pixel_convert plane_Y) (take 4 (drop index in_data)))
          (row_emits True (shift Tar) [cell_new AddAssign (U ! a) (map (pixel_convert plane_U) (take 4 (drop index in_data)))])
          (row_emits True (shift Tar) [cell_new AddAssign (V ! a) (map (pixel_convert plane_V) (take 4 (drop index in_data)))]) ot)"
      if "4 * a + 4 \<le> in_w" "index + 4 \<le> length in_data" "a < length U" "a < length V"
        "layout_ok py 4 uv (if True then 1 else 0) (length ot)" "shape_ok Tar uv"
      for a index py uv U V ot
      using that by (simp only: if_True row410_last_cell)
  qed (use assms in simp_all)
  then show ?thesis
    using assms lR
    by (simp add: row_emits_def overwrite_whole row_cells_def length_chunks)
qed

lemma rows410_first_step:
  "i < in_h \<Longrightarrow> row410_first in_data in_w 0 1 st = Some st' \<Longrightarrow>
   rows410 Tar in_data in_w in_h i 1 st = rows410 Tar in_data in_w in_h (Suc i) 2 st'"
  by (subst rows410.simps) (simp add: numeral_2_eq_2)

lemma rows410_mid_step:
  "i < in_h \<Longrightarrow> hf = 2 \<or> hf = 3 \<Longrightarrow> row410_mid in_data in_w 0 st = Some st' \<Longrightarrow>
   rows410 Tar in_data in_w in_h i hf st = rows410 Tar in_data in_w in_h (Suc i) (Suc hf) st'"
  by (subst rows410.simps) auto

lemma rows410_last_step:
  "i < in_h \<Longrightarrow> hf = 4 \<Longrightarrow> row410_last Tar in_data in_w 0 1 st = Some st' \<Longrightarrow>
   rows410 Tar in_data in_w in_h i hf st = rows410 Tar in_data in_w in_h (Suc i) 1 st'"
  by (subst rows410.simps) simp

lemma rows410_stop:
  "\<not> i < in_h \<Longrightarrow> rows410 Tar in_data in_w in_h i f (index, py, uv, U, V, ot) = Some ot"
  by (subst rows410.simps) simp

text \<open>The first one, two or three rows of a group of four.\<close>

lemma rows410_prefix:
  assumes "in_w = 4 * m" "length U = m" "length V = m"
  shows "d < 3 \<Longrightarrow> i + Suc d \<le> in_h \<Longrightarrow> index + Suc d * in_w \<le> length in_data \<Longrightarrow>
    layout_ok py (Suc d * in_w) uv 0 (length ot) \<Longrightarrow>
    rows410 Tar in_data in_w in_h i 1 (index, py, uv, U, V, ot) =
    rows410 Tar in_data in_w in_h (i + Suc d) (Suc (Suc d))
      (index + Suc d * in_w, py + Suc d * in_w, uv,
       group_cells plane_U in_w 4 in_data index (Suc d),
       group_cells plane_V in_w 4 in_data index (Suc d),
       overwrite ot py (map (pixel_convert plane_Y) (take (Suc d * in_w) (drop index in_data))))"
proof (induction d)
  case 0
  have len: "index + in_w \<le> length in_data" using 0 by simp
  have lay: "layout_ok py in_w uv 0 (length ot)" using 0 by simp
  have r: "row410_first in_data in_w 0 1 (index, py, uv, U, V, ot) =
        Some (index + in_w, py + in_w, uv,
              group_cells plane_U in_w 4 in_data index 1, group_cells plane_V in_w 4 in_data index 1,
              overwrite ot py (map (pixel_convert plane_Y) (take in_w (drop index in_data))))"
    using row410_first_row[OF assms(1) len assms(2,3) lay]
      group_cells_first[OF assms(1) _ assms(2) len] group_cells_first[OF assms(1) _ assms(3) len]
    by simp
  have "rows410 Tar in_data in_w in_h i 1 (index, py, uv, U, V, ot) =
        rows410 Tar in_data in_w in_h (Suc i) 2 (index + in_w, py + in_w, uv,
              group_cells plane_U in_w 4 in_data index 1, group_cells plane_V in_w 4 in_data index 1,
              overwrite ot py (map (pixel_convert plane_Y) (take in_w (drop index in_data))))"
    using 0 by (intro rows410_first_step r) simp
  then show ?case by (simp add: numeral_2_eq_2)
next
  case (Suc d)
  let ?Y = "pixel_convert plane_Y"
  let ?a = "Suc d * in_w"
  let ?A = "take ?a (drop index in_data)" and ?B = "take in_w (drop (index + ?a) in_data)"
  let ?Ud = "group_cells plane_U in_w 4 in_data index (Suc d)"
  let ?Vd = "group_cells plane_V in_w 4 in_data index (Suc d)"
  let ?Ue = "group_cells plane_U in_w 4 in_data index (Suc (Suc d))"
  let ?Ve = "group_cells plane_V in_w 4 in_data index (Suc (Suc d))"
  let ?ota = "overwrite ot py (map ?Y ?A)"
  have lay: "layout_ok py (?a + in_w) uv (0 + 0) (length ot)"
    using Suc.prems(4) by (simp add: add.commute)
  have len: "index + ?a \<le> length in_data" "index + ?a + in_w \<le> length in_data"
    using Suc.prems(3) by simp_all
  have lA: "length (map ?Y ?A) = ?a" using len by simp
  have ih: "rows410 Tar in_data in_w in_h i 1 (index, py, uv, U, V, ot) =
      rows410 Tar in_data in_w in_h (i + Suc d) (Suc (Suc d))
        (index + ?a, py + ?a, uv, ?Ud, ?Vd, ?ota)"
    using Suc.prems len(1) layout_ok_mono(1)[OF lay] by (intro Suc.IH) simp_all
  have wm: "in_w div 4 = m" using assms(1) by simp
  have lay2: "layout_ok (py + ?a) in_w uv 0 (length ?ota)"
    using layout_ok_mono(2)[OF lay] by simp
  have nx: "row_cells AddAssign plane_U 4 ?Ud ?B = ?Ue" "row_cells AddAssign plane_V 4 ?Vd ?B = ?Ve"
    using group_cells_next[OF assms(1), of index "Suc d" in_data] len(2) by simp_all
  have r: "row410_mid in_data in_w 0 (index + ?a, py + ?a, uv, ?Ud, ?Vd, ?ota) =
        Some (index + ?a + in_w, py + ?a + in_w, uv, ?Ue, ?Ve, overwrite ?ota (py + ?a) (map ?Y ?B))"
    using row410_mid_row[OF assms(1) len(2) _ _ lay2, of ?Ud ?Vd] wm
    unfolding nx by simp
  have ow: "overwrite ?ota (py + ?a) (map ?Y ?B) = overwrite ot py (map ?Y ?A @ map ?Y ?B)"
    by (rule overwrite_append_at) (simp only: lA)
  have tk: "take (Suc (Suc d) * in_w) (drop index in_data) = ?A @ ?B"
    using take_add_drop[of ?a in_w index in_data] by (simp add: add.commute)
  have "rows410 Tar in_data in_w in_h (i + Suc d) (Suc (Suc d))
        (index + ?a, py + ?a, uv, ?Ud, ?Vd, ?ota) =
      rows410 Tar in_data in_w in_h (Suc (i + Suc d)) (Suc (Suc (Suc d)))
        (index + ?a + in_w, py + ?a + in_w, uv, ?Ue, ?Ve, overwrite ?ota (py + ?a) (map ?Y ?B))"
    using Suc.prems(1,2) by (intro rows410_mid_step r) auto
  then show ?case
    unfolding ih ow tk map_append by (simp add: add.commute add.left_commute)
qed

lemma rows410_quad:
  assumes "i + 4 \<le> in_h" "in_w = 4 * m" "index + 4 * in_w \<le> length in_data"
    and "length U = m" "length V = m" "shape_ok Tar uv" "shift Tar = 4"
    and "layout_ok py (4 * in_w) uv m (length ot)"
  shows "\<exists>U' V'. length U' = m \<and> length V' = m \<and>
          rows410 Tar in_data in_w in_h i 1 (index, py, uv, U, V, ot) =
          rows410 Tar in_data in_w in_h (i + 4) 1
            (index + 4 * in_w, py + 4 * in_w, uv_advance m uv, U', V',
             emit Tar py uv (map (pixel_convert plane_Y) (take (4 * in_w) (drop index in_data)))
               (map mean_U (block_row in_w 4 4 in_data index))
               (map mean_V (block_row in_w 4 4 in_data index)) ot)"
proof -
  let ?Y = "pixel_convert plane_Y"
  let ?a = "3 * in_w"
  let ?A = "take ?a (drop index in_data)" and ?B = "take in_w (drop (index + ?a) in_data)"
  let ?Ud = "group_cells plane_U in_w 4 in_data index 3"
  let ?Vd = "group_cells plane_V in_w 4 in_data index 3"
  let ?Ue = "group_cells plane_U in_w 4 in_data index 4"
  let ?Ve = "group_cells plane_V in_w 4 in_data index 4"
  let ?ota = "overwrite ot py (map ?Y ?A)"
  let ?MU = "map mean_U (block_row in_w 4 4 in_data index)"
  let ?MV = "map mean_V (block_row in_w 4 4 in_data index)"
  have lay: "layout_ok py (?a + in_w) uv (0 + m) (length ot)" using assms(8) by simp
  have len: "index + ?a \<le> length in_data" "index + ?a + in_w \<le> length in_data"
    using assms(3) by simp_all
  have wm: "in_w div 4 = m" using assms(2) by simp
  have lA: "length (map ?Y ?A) = ?a" using len by simp
  have lB: "length (map ?Y ?B) = in_w" using len by simp
  have pre: "rows410 Tar in_data in_w in_h i 1 (index, py, uv, U, V, ot) =
      rows410 Tar in_data in_w in_h (i + 3) 4 (index + ?a, py + ?a, uv, ?Ud, ?Vd, ?ota)"
  proof -
    have e: "Suc 2 = 3" "Suc 3 = 4" by simp_all
    have "rows410 Tar in_data in_w in_h i 1 (index, py, uv, U, V, ot) =
      rows410 Tar in_data in_w in_h (i + Suc 2) (Suc (Suc 2))
        (index + Suc 2 * in_w, py + Suc 2 * in_w, uv,
         group_cells plane_U in_w 4 in_data index (Suc 2),
         group_cells plane_V in_w 4 in_data index (Suc 2),
         overwrite ot py (map (pixel_convert plane_Y) (take (Suc 2 * in_w) (drop index in_data))))"
      using assms(1) len(1) layout_ok_mono(1)[OF lay]
      by (intro rows410_prefix[OF assms(2,4,5)]) simp_all
    then show ?thesis by (simp only: e)
  qed
  have lay2: "layout_ok (py + ?a) in_w uv m (length ?ota)"
    using layout_ok_mono(2)[OF lay] by simp
  have nx: "row_cells AddAssign plane_U 4 ?Ud ?B = ?Ue" "row_cells AddAssign plane_V 4 ?Vd ?B = ?Ve"
    using group_cells_next[OF assms(2), of index 3 in_data] len(2) by simp_all
  have mn: "map (\<lambda>x. shr_byte x (shift Tar)) ?Ue = ?MU" "map (\<lambda>x. shr_byte x (shift Tar)) ?Ve = ?MV"
    unfolding assms(7)
    using group_cells_means[OF assms(2) _ assms(3), of 4] by simp_all
  have r: "row410_last Tar in_data in_w 0 1 (index + ?a, py + ?a, uv, ?Ud, ?Vd, ?ota) =
        Some (index + ?a + in_w, py + ?a + in_w, uv_advance m uv, ?Ue, ?Ve,
              emit Tar (py + ?a) uv (map ?Y ?B) ?MU ?MV ?ota)"
    using row410_last_row[OF assms(2) len(2) _ _ lay2 assms(6), of ?Ud ?Vd] wm
    unfolding nx mn by simp
  have em: "emit Tar (py + ?a) uv (map ?Y ?B) ?MU ?MV (emit Tar py uv (map ?Y ?A) [] [] ot) =
            emit Tar py uv (map ?Y ?A @ map ?Y ?B) ([] @ ?MU) ([] @ ?MV) ot"
  proof (rule emit_append_at[where a = ?a and b = in_w and n = 0 and k = m and len = "length ot"])
    show "length (map ?Y ?A) = ?a" by (rule lA)
    show "length (map ?Y ?B) = in_w" by (rule lB)
    show "layout_ok py (?a + in_w) uv (0 + m) (length ot)" by (rule lay)
  qed (simp_all add: wm)
  have tk: "take (4 * in_w) (drop index in_data) = ?A @ ?B"
    using take_add_drop[of ?a in_w index in_data] by simp
  have "rows410 Tar in_data in_w in_h (i + 3) 4 (index + ?a, py + ?a, uv, ?Ud, ?Vd, ?ota) =
        rows410 Tar in_data in_w in_h (Suc (i + 3)) 1
          (index + ?a + in_w, py + ?a + in_w, uv_advance m uv, ?Ue, ?Ve,
           emit Tar (py + ?a) uv (map ?Y ?B) ?MU ?MV ?ota)"
    using assms(1) by (intro rows410_last_step r) simp_all
  then have "rows410 Tar in_data in_w in_h i 1 (index, py, uv, U, V, ot) =
      rows410 Tar in_data in_w in_h (i + 4) 1
       (index + 4 * in_w, py + 4 * in_w, uv_advance m uv, ?Ue, ?Ve,
        emit Tar py uv (map ?Y (take (4 * in_w) (drop index in_data))) ?MU ?MV ot)"
    unfolding pre tk map_append using em by (simp add: add.assoc add.commute[of 4 i])
  then show ?thesis using wm by (intro exI[of _ ?Ue] exI[of _ ?Ve]) simp
qed

lemma rows410_rest:
  assumes "i + t = in_h" "t < 4" "in_w = 4 * m" "index + t * in_w \<le> length in_data"
    and "length U = m" "length V = m" "layout_ok py (t * in_w) uv 0 (length ot)"
  shows "rows410 Tar in_data in_w in_h i 1 (index, py, uv, U, V, ot) =
         Some (overwrite ot py (map (pixel_convert plane_Y) (take (t * in_w) (drop index in_data))))"
proof (cases t)
  case 0
  then show ?thesis using assms(1) by (simp add: rows410_stop)
next
  case (Suc d)
  have "rows410 Tar in_data in_w in_h i 1 (index, py, uv, U, V, ot) =
    rows410 Tar in_data in_w in_h (i + Suc d) (Suc (Suc d))
      (index + Suc d * in_w, py + Suc d * in_w, uv,
       group_cells plane_U in_w 4 in_data index (Suc d),
       group_cells plane_V in_w 4 in_data index (Suc d),
       overwrite ot py (map (pixel_convert plane_Y) (take (Suc d * in_w) (drop index in_data))))"
    using assms(1,2,4,7) Suc by (intro rows410_prefix[OF assms(3,5,6)]) simp_all
  also have "\<dots> = Some (overwrite ot py (map (pixel_convert plane_Y) (take (Suc d * in_w) (drop index in_data))))"
    using assms(1) Suc by (intro rows410_stop) simp
  finally show ?thesis using Suc by simp
qed

lemma rows410_all:
  assumes "in_w = 4 * m" "4 * H + t = in_h" "t < 4" "in_h * in_w \<le> length in_data"
    and "length U = m" "length V = m" "shape_ok Tar uv" "shift Tar = 4"
    and "layout_ok py (in_h * in_w) uv (H * m) (length ot)"
  shows "rows410 Tar in_data in_w in_h 0 1 (0, py, uv, U, V, ot) =
         Some (emit Tar py uv (map (pixel_convert plane_Y) (take (in_h * in_w) in_data))
                 (map mean_U (blocks in_w in_h 4 4 in_data))
                 (map mean_V (blocks in_w in_h 4 4 in_data)) ot)"
proof -
  have hd: "in_h div 4 = H" using assms(2,3) by auto
  have "rows410 Tar in_data in_w in_h 0 1 (0, py, uv, U, V, ot) =
        Some (emit Tar py uv
                 (map (pixel_convert plane_Y) (take ((4 * H + t) * in_w) (drop 0 in_data)))
                 (map mean_U (concat (map (\<lambda>r. block_row in_w 4 4 in_data (0 + r * 4 * in_w)) [0..<H])))
                 (map mean_V (concat (map (\<lambda>r. block_row in_w 4 4 in_data (0 + r * 4 * in_w)) [0..<H])))
                 ot)"
  proof (rule groups_of_rows[where G = "\<lambda>i st. rows410 Tar in_data in_w in_h i 1 st"
        and h = in_h and m = m and S = Tar])
    fix i index py uv and U V :: "16 word list" and ot :: "8 word list"
    assume "i + 4 \<le> in_h" "index + 4 * in_w \<le> length in_data" "length U = m" "length V = m"
      "shape_ok Tar uv" "layout_ok py (4 * in_w) uv m (length ot)"
    then show "\<exists>U' V'. length U' = m \<and> length V' = m \<and>
        rows410 Tar in_data in_w in_h i 1 (index, py, uv, U, V, ot) =
        rows410 Tar in_data in_w in_h (i + 4) 1
          (index + 4 * in_w, py + 4 * in_w, uv_advance m uv, U', V',
           emit Tar py uv (map (pixel_convert plane_Y) (take (4 * in_w) (drop index in_data)))
             (map mean_U (block_row in_w 4 4 in_data index))
             (map mean_V (block_row in_w 4 4 in_data index)) ot)"
      using assms(1,8) by (intro rows410_quad)
  next
    fix i index py uv t and U V :: "16 word list" and ot :: "8 word list"
    assume "i + t = in_h" "t < 4" "index + t * in_w \<le> length in_data" "length U = m" "length V = m"
      "shape_ok Tar uv" "layout_ok py (t * in_w) uv 0 (length ot)"
    then show "rows410 Tar in_data in_w in_h i 1 (index, py, uv, U, V, ot) =
        Some (overwrite ot py (map (pixel_convert plane_Y) (take (t * in_w) (drop index in_data))))"
      using assms(1) by (intro rows410_rest)
  next
    show "in_w div 4 = m" using assms(1) by simp
    show "0 + 4 * H + t = in_h" using assms(2) by simp
    show "t < 4" by (rule assms(3))
    show "0 + (4 * H + t) * in_w \<le> length in_data" using assms(2,4) by simp
    show "length U = m" "length V = m" "shape_ok Tar uv" by (rule assms)+
    show "layout_ok py ((4 * H + t) * in_w) uv (H * m) (length ot)" using assms(2,9) by simp
  qed
  then show ?thesis using assms(2) by (simp add: blocks_def hd)
qed

lemma length_junk: "length (map f [0..<drop_bit k (n::nat)]) = n div 2 ^ k"
  by (simp add: drop_bit_eq_div)

lemma transform_to_420_emit:
  assumes "Tar \<in> {yuv_YV12, yuv_YU12, yuv_NV12, yuv_NV21}"
    and "even in_w" "in_w * in_h < 2 ^ 64"
    and "length in_data = in_w * in_h" "length ot_data = in_w * in_h + in_w * in_h div 2"
  shows "transform_to_420 Tar in_data in_w in_h u_junk v_junk ot_data =
         Some (emit Tar 0 (fill Tar 0 in_w in_h) (map (pixel_convert plane_Y) in_data)
                 (map mean_U (blocks in_w in_h 2 2 in_data))
                 (map mean_V (blocks in_w in_h 2 2 in_data)) ot_data)"
proof -
  obtain m where m: "in_w = 2 * m" using assms(2) by auto
  define H where "H = in_h div 2"
  define t where "t = in_h mod 2"
  define s where "s = in_w * in_h"
  have h: "2 * H + t = in_h" "t < 2" by (simp_all add: H_def t_def)
  have "s = 2 * m * (2 * H + t)" unfolding s_def m h ..
  then have s4: "4 * (H * m) \<le> s" by (simp add: algebra_simps)
  have n: "H * m \<le> s div 4" "s div 4 + H * m \<le> s div 2" using s4 by arith+
  have lU: "length (map u_junk [0..<drop_bit 1 in_w]) = m" "length (map v_junk [0..<drop_bit 1 in_w]) = m"
    using m by (simp_all add: drop_bit_eq_div)
  have sh: "shape_ok Tar (fill Tar 0 in_w in_h)" "shift Tar = 2"
    using assms(1) by auto
  have lay: "layout_ok 0 (in_h * in_w) (fill Tar 0 in_w in_h) (H * m) (length ot_data)"
    using assms(1) n unfolding assms(5) s_def
    by (auto simp add: size_t_mul_id[OF assms(3)] drop_bit_eq_div mult.commute Let_def)
  have "rows420 Tar in_data in_w in_h 0 False
          (0, 0, fill Tar 0 in_w in_h, map u_junk [0..<drop_bit 1 in_w],
           map v_junk [0..<drop_bit 1 in_w], ot_data) =
        Some (emit Tar 0 (fill Tar 0 in_w in_h)
                (map (pixel_convert plane_Y) (take (in_h * in_w) in_data))
                (map mean_U (blocks in_w in_h 2 2 in_data))
                (map mean_V (blocks in_w in_h 2 2 in_data)) ot_data)"
    using assms(4) by (intro rows420_all[OF m h _ lU sh lay]) (simp add: mult.commute)
  then show ?thesis
    using assms(4) by (simp add: transform_to_420_def Let_def mult.commute)
qed

lemma transform_to_410_emit:
  assumes "Tar \<in> {yuv_YUV9, yuv_YVU9}"
    and "4 dvd in_w" "in_w * in_h < 2 ^ 64"
    and "length in_data = in_w * in_h" "length ot_data = in_w * in_h + in_w * in_h div 8"
  shows "transform_to_410 Tar in_data in_w in_h u_junk v_junk ot_data =
         Some (emit Tar 0 (fill Tar 0 in_w in_h) (map (pixel_convert plane_Y) in_data)
                 (map mean_U (blocks in_w in_h 4 4 in_data))
                 (map mean_V (blocks in_w in_h 4 4 in_data)) ot_data)"
proof -
  obtain m where m: "in_w = 4 * m" using assms(2) by auto
  define H where "H = in_h div 4"
  define t where "t = in_h mod 4"
  define s where "s = in_w * in_h"
  have h: "4 * H + t = in_h" "t < 4" by (simp_all add: H_def t_def)
  have "s = 4 * m * (4 * H + t)" unfolding s_def m h ..
  then have s4: "16 * (H * m) \<le> s" by (simp add: algebra_simps)
  have n: "H * m \<le> s div 16" "s div 16 + H * m \<le> s div 8" using s4 by arith+
  have lU: "length (map u_junk [0..<drop_bit 2 in_w]) = m" "length (map v_junk [0..<drop_bit 2 in_w]) = m"
    using m by (simp_all add: drop_bit_eq_div)
  have sh: "shape_ok Tar (fill Tar 0 in_w in_h)" "shift Tar = 4"
    using assms(1) by auto
  have lay: "layout_ok 0 (in_h * in_w) (fill Tar 0 in_w in_h) (H * m) (length ot_data)"
    using assms(1) n unfolding assms(5) s_def
    by (auto simp add: size_t_mul_id[OF assms(3)] drop_bit_eq_div mult.commute Let_def)
  have "rows410 Tar in_data in_w in_h 0 1
          (0, 0, fill Tar 0 in_w in_h, map u_junk [0..<drop_bit 2 in_w],
           map v_junk [0..<drop_bit 2 in_w], ot_data) =
        Some (emit Tar 0 (fill Tar 0 in_w in_h)
                (map (pixel_convert plane_Y) (take (in_h * in_w) in_data))
                (map mean_U (blocks in_w in_h 4 4 in_data))
                (map mean_V (blocks in_w in_h 4 4 in_data)) ot_data)"
    using assms(4) by (intro rows410_all[OF m h _ lU sh lay]) (simp add: mult.commute)
  then show ?thesis
    using assms(4) by (simp add: transform_to_410_def Let_def mult.commute)
qed

lemma length_blocks: "length (blocks w h bh bw xs) = (h div bh) * (w div bw)"
  by (simp add: blocks_def length_block_rows)

lemma transform_to_420_planes:
  assumes "Tar \<in> {yuv_YV12, yuv_YU12, yuv_NV12, yuv_NV21}"
    and "even in_w" "even in_h" "in_w * in_h < 2 ^ 64"
    and "length in_data = in_w * in_h" "length ot_data = in_w * in_h + in_w * in_h div 2"
  shows "transform_to_420 Tar in_data in_w in_h u_junk v_junk ot_data =
         Some (planes Tar (map (pixel_convert plane_Y) in_data)
                 (map mean_U (blocks in_w in_h 2 2 in_data))
                 (map mean_V (blocks in_w in_h 2 2 in_data)))"
proof -
  obtain m where m: "in_w = 2 * m" using assms(2) by auto
  obtain H where H: "in_h = 2 * H" using assms(3) by auto
  let ?ys = "map (pixel_convert plane_Y) in_data"
  let ?us = "map mean_U (blocks in_w in_h 2 2 in_data)"
  let ?vs = "map mean_V (blocks in_w in_h 2 2 in_data)"
  define a where "a = in_w * in_h"
  define n where "n = H * m"
  have a: "a = 4 * n" by (simp add: a_def n_def m H)
  have l: "length ?ys = a" "length ?us = n" "length ?vs = n" "length ot_data = a + n + n"
    using assms(5,6) a by (simp_all add: length_blocks a_def[symmetric]) (simp_all add: m H n_def)
  have f: "fill yuv_YU12 0 in_w in_h = uv_planar a (a + n)"
    "fill yuv_YV12 0 in_w in_h = uv_planar (a + n) a"
    "fill yuv_NV12 0 in_w in_h = uv_semi a" "fill yuv_NV21 0 in_w in_h = uv_semi a"
    using a by (simp_all add: size_t_mul_id[OF assms(4)] drop_bit_eq_div Let_def a_def[symmetric])
  have "emit Tar 0 (fill Tar 0 in_w in_h) ?ys ?us ?vs ot_data = planes Tar ?ys ?us ?vs"
    using assms(1)
    by (auto simp add: f emit_planar_whole[OF l] emit_semi_whole[OF l] interleave_def
        simp del: fill.simps)
  then show ?thesis
    using transform_to_420_emit[OF assms(1,2,4,5,6), of u_junk v_junk] by simp
qed

lemma transform_to_410_planes:
  assumes "Tar \<in> {yuv_YUV9, yuv_YVU9}"
    and "4 dvd in_w" "4 dvd in_h" "in_w * in_h < 2 ^ 64"
    and "length in_data = in_w * in_h" "length ot_data = in_w * in_h + in_w * in_h div 8"
  shows "transform_to_410 Tar in_data in_w in_h u_junk v_junk ot_data =
         Some (planes Tar (map (pixel_convert plane_Y) in_data)
                 (map mean_U (blocks in_w in_h 4 4 in_data))
                 (map mean_V (blocks in_w in_h 4 4 in_data)))"
proof -
  obtain m where m: "in_w = 4 * m" using assms(2) by auto
  obtain H where H: "in_h = 4 * H" using assms(3) by auto
  let ?ys = "map (pixel_convert plane_Y) in_data"
  let ?us = "map mean_U (blocks in_w in_h 4 4 in_data)"
  let ?vs = "map mean_V (blocks in_w in_h 4 4 in_data)"
  define a where "a = in_w * in_h"
  define n where "n = H * m"
  have a: "a = 16 * n" by (simp add: a_def n_def m H)
  have l: "length ?ys = a" "length ?us = n" "length ?vs = n" "length ot_data = a + n + n"
    using assms(5,6) a by (simp_all add: length_blocks a_def[symmetric]) (simp_all add: m H n_def)
  have f: "fill yuv_YUV9 0 in_w in_h = uv_planar a (a + n)"
    "fill yuv_YVU9 0 in_w in_h = uv_planar (a + n) a"
    using a by (simp_all add: size_t_mul_id[OF assms(4)] drop_bit_eq_div Let_def a_def[symmetric])
  have "emit Tar 0 (fill Tar 0 in_w in_h) ?ys ?us ?vs ot_data = planes Tar ?ys ?us ?vs"
    using assms(1)
    by (auto simp add: f emit_planar_whole[OF l] simp del: fill.simps)
  then show ?thesis
    using transform_to_410_emit[OF assms(1,2,4,5,6), of u_junk v_junk] by simp
qed



lemma upt_0_4: "[0..<4] = [0, 1, 2, 3]"
  by (simp add: upt_rec)















subsection \<open>Widths that the accumulator blocks do not cover\<close>

lemma cell_op_length: "cell_op OP tmp k x = Some tmp' \<Longrightarrow> k < length tmp \<and> length tmp' = length tmp"
  by (auto simp add: cell_op_def load_def store_def split: if_splits)

lemma cell_op_None: "length tmp \<le> k \<Longrightarrow> cell_op OP tmp k x = None"
  by (simp add: cell_op_def load_def)

lemma row420_odd_step_None:
  assumes "j < in_w"
    and "\<And>index' py' U' V' ot'. drop_bit 1 j < length U \<Longrightarrow> length U' = length U \<Longrightarrow>
      row420_odd in_data in_w (j + 1) (\<not> f) (index', py', uv, U', V', ot') = None"
  shows "row420_odd in_data in_w j f (index, py, uv, U, V, ot) = None"
proof -
  note s = row420_odd.simps[of in_data in_w j f index py uv U V ot]
  let ?op = "if f then AddAssign else Assign"
  show ?thesis
  proof (cases "load in_data index")
    case None
    then show ?thesis using assms(1) by (simp add: s)
  next
    case (Some rgb)
    show ?thesis
    proof (cases "store ot py (pixel_convert plane_Y rgb)")
      case None
      then show ?thesis using assms(1) Some by (simp add: s)
    next
      case st: (Some ot1)
      show ?thesis
      proof (cases "cell_op ?op U (drop_bit 1 j) (pixel_convert plane_U rgb)")
        case None
        then show ?thesis using assms(1) Some st by (simp add: s Let_def split: if_splits)
      next
        case u: (Some U1)
        then have l: "drop_bit 1 j < length U" "length U1 = length U"
          using cell_op_length[of ?op U "drop_bit 1 j" "pixel_convert plane_U rgb" U1] by simp_all
        show ?thesis
        proof (cases "cell_op ?op V (drop_bit 1 j) (pixel_convert plane_V rgb)")
          case None
          then show ?thesis using assms(1) Some st u by (simp add: s Let_def split: if_splits)
        next
          case v: (Some V1)
          show ?thesis
            using assms(1) Some st u v assms(2)[OF l]
            by (simp add: s Let_def split: if_splits)
        qed
      qed
    qed
  qed
qed

lemma row420_odd_None:
  assumes "odd in_w" "length U = in_w div 2"
  shows "j < in_w \<Longrightarrow> row420_odd in_data in_w j f (index, py, uv, U, V, ot) = None"
  using assms(2)
proof (induction "in_w - j" arbitrary: j f index py U V ot)
  case 0
  then show ?case by simp
next
  case (Suc n)
  show ?case
  proof (rule row420_odd_step_None)
    show "j < in_w" by (rule Suc.prems(1))
  next
    fix  index' py' ot' and U' V' :: "16 word list"
    assume a: "drop_bit 1 j < length U" "length U' = length U"
    have "j + 1 < in_w"
    proof (rule ccontr)
      assume "\<not> j + 1 < in_w"
      then have j: "in_w = Suc j" using Suc.prems(1) by simp
      have "j div 2 = in_w div 2" using j assms(1) by presburger
      then show False using a(1) Suc.prems(2) by (simp add: drop_bit_eq_div)
    qed
    moreover have "n = in_w - (j + 1)" using Suc.hyps(2) by simp
    moreover have "length U' = in_w div 2" using a(2) Suc.prems(2) by simp
    ultimately show "row420_odd in_data in_w (j + 1) (\<not> f) (index', py', uv, U', V', ot') = None"
      by (intro Suc.hyps(1))
  qed
qed

lemma row410_first_step_None:
  assumes "j < in_w"
    and "\<And>fl' index' py' U' V' ot'. drop_bit 2 j < length U \<Longrightarrow> length U' = length U \<Longrightarrow>
      row410_first in_data in_w (j + 1) fl' (index', py', uv, U', V', ot') = None"
  shows "row410_first in_data in_w j fl (index, py, uv, U, V, ot) = None"
proof -
  note s = row410_first.simps[of in_data in_w j fl index py uv U V ot]
  let ?op = "if fl = 1 then Assign else AddAssign"
  show ?thesis
  proof (cases "load in_data index")
    case None
    then show ?thesis using assms(1) by (simp add: s)
  next
    case (Some rgb)
    show ?thesis
    proof (cases "store ot py (pixel_convert plane_Y rgb)")
      case None
      then show ?thesis using assms(1) Some by (simp add: s)
    next
      case st: (Some ot1)
      show ?thesis
      proof (cases "cell_op ?op U (drop_bit 2 j) (pixel_convert plane_U rgb)")
        case None
        then show ?thesis using assms(1) Some st by (simp add: s Let_def split: if_splits)
      next
        case u: (Some U1)
        then have l: "drop_bit 2 j < length U" "length U1 = length U"
          using cell_op_length[of ?op U "drop_bit 2 j" "pixel_convert plane_U rgb" U1] by simp_all
        show ?thesis
        proof (cases "cell_op ?op V (drop_bit 2 j) (pixel_convert plane_V rgb)")
          case None
          then show ?thesis using assms(1) Some st u by (simp add: s Let_def split: if_splits)
        next
          case v: (Some V1)
          show ?thesis
            using assms(1) Some st u v assms(2)[OF l]
            by (simp add: s Let_def split: if_splits)
        qed
      qed
    qed
  qed
qed

lemma row410_first_None:
  assumes "\<not> 4 dvd in_w" "length U = in_w div 4"
  shows "j < in_w \<Longrightarrow> row410_first in_data in_w j fl (index, py, uv, U, V, ot) = None"
  using assms(2)
proof (induction "in_w - j" arbitrary: j fl index py U V ot)
  case 0
  then show ?case by simp
next
  case (Suc n)
  show ?case
  proof (rule row410_first_step_None)
    show "j < in_w" by (rule Suc.prems(1))
  next
    fix fl' index' py' ot' and U' V' :: "16 word list"
    assume a: "drop_bit 2 j < length U" "length U' = length U"
    have "j + 1 < in_w"
    proof (rule ccontr)
      assume "\<not> j + 1 < in_w"
      then have j: "in_w = Suc j" using Suc.prems(1) by simp
      have "j div 4 = in_w div 4" using j assms(1) by presburger
      then show False using a(1) Suc.prems(2) by (simp add: drop_bit_eq_div)
    qed
    moreover have "n = in_w - (j + 1)" using Suc.hyps(2) by simp
    moreover have "length U' = in_w div 4" using a(2) Suc.prems(2) by simp
    ultimately show "row410_first in_data in_w (j + 1) fl' (index', py', uv, U', V', ot') = None"
      by (intro Suc.hyps(1))
  qed
qed

subsection \<open>Images of one colour\<close>

lemma sum_list_replicate_nat: "sum_list (replicate n (a::nat)) = n * a"
  by (induction n) simp_all

lemma mean_bytes_replicate: "0 < n \<Longrightarrow> mean_bytes (replicate n x) = x"
  by (simp add: mean_bytes_def sum_list_replicate_nat)

lemma mean_replicate:
  "0 < n \<Longrightarrow> mean_U (replicate n p) = pixel_convert plane_U p"
  "0 < n \<Longrightarrow> mean_V (replicate n p) = pixel_convert plane_V p"
  by (simp_all add: mean_U_def mean_V_def mean_bytes_replicate)

lemma chunks_replicate:
  assumes "0 < g"
  shows "chunks g (replicate (g * n) p) = replicate n (replicate g p)"
proof (rule nth_equalityI)
  show "length (chunks g (replicate (g * n) p)) = length (replicate n (replicate g p))"
    using assms by (simp add: chunks_def)
next
  fix k assume "k < length (chunks g (replicate (g * n) p))"
  then have k: "k < n" using assms by (simp add: chunks_def)
  then have "Suc k * g \<le> n * g" by (intro mult_le_mono1) simp
  then have "g \<le> g * n - k * g" by (simp add: mult.commute)
  then show "chunks g (replicate (g * n) p) ! k = replicate n (replicate g p) ! k"
    using k assms by (simp add: chunks_def min_def)
qed

lemma concat_replicate_replicate: "concat (replicate a (replicate b x)) = replicate (a * b) x"
  by (induction a) (simp_all add: replicate_add)

lemma block_row_replicate:
  assumes "index + bh * w \<le> n" "0 < bw"
  shows "block_row w bh bw (replicate n p) index = replicate (w div bw) (replicate (bh * bw) p)"
proof (rule nth_equalityI)
  show "length (block_row w bh bw (replicate n p) index) =
        length (replicate (w div bw) (replicate (bh * bw) p))"
    by simp
next
  fix c assume "c < length (block_row w bh bw (replicate n p) index)"
  then have c: "c < w div bw" by simp
  then have "Suc c * bw \<le> w div bw * bw" by (intro mult_le_mono1) simp
  then have "Suc c * bw \<le> w" using div_times_less_eq_dividend[of w bw] by (rule le_trans)
  then have cw: "c * bw + bw \<le> w" by simp
  have row: "take bw (drop (index + dr * w + c * bw) (replicate n p)) = replicate bw p"
    if "dr < bh" for dr
  proof -
    have "Suc dr * w \<le> bh * w" using that by (intro mult_le_mono1) simp
    then have "index + dr * w + c * bw + bw \<le> n" using assms(1) cw by simp
    then show ?thesis by (simp add: min_def)
  qed
  have "map (\<lambda>dr. take bw (drop (index + dr * w + c * bw) (replicate n p))) [0..<bh] =
        map (\<lambda>dr. replicate bw p) [0..<bh]"
    by (intro map_cong refl row) simp
  then have "concat (map (\<lambda>dr. take bw (drop (index + dr * w + c * bw) (replicate n p))) [0..<bh]) =
             concat (replicate bh (replicate bw p))"
    by (simp add: map_replicate_const)
  also have "\<dots> = replicate (bh * bw) p"
    by (rule concat_replicate_replicate)
  finally show "block_row w bh bw (replicate n p) index ! c =
                replicate (w div bw) (replicate (bh * bw) p) ! c"
    using c by (simp add: block_row_def)
qed

lemma blocks_replicate:
  assumes "0 < bw" "0 < bh"
  shows "blocks w h bh bw (replicate (w * h) p) =
         replicate ((h div bh) * (w div bw)) (replicate (bh * bw) p)"
proof -
  have "block_row w bh bw (replicate (w * h) p) (r * bh * w) =
        replicate (w div bw) (replicate (bh * bw) p)" if "r < h div bh" for r
  proof -
    have "Suc r * bh \<le> h div bh * bh" using that by (intro mult_le_mono1) simp
    then have "Suc r * bh \<le> h" using div_times_less_eq_dividend[of h bh] by (rule le_trans)
    then have "Suc r * bh * w \<le> h * w" by (intro mult_le_mono1)
    then have "r * bh * w + bh * w \<le> w * h" by (simp add: algebra_simps)
    then show ?thesis using assms(1) by (intro block_row_replicate)
  qed
  then have "map (\<lambda>r. block_row w bh bw (replicate (w * h) p) (r * bh * w)) [0..<h div bh] =
             map (\<lambda>r. replicate (w div bw) (replicate (bh * bw) p)) [0..<h div bh]"
    by (intro map_cong refl) simp
  then have "blocks w h bh bw (replicate (w * h) p) =
             concat (replicate (h div bh) (replicate (w div bw) (replicate (bh * bw) p)))"
    by (simp add: blocks_def map_replicate_const)
  also have "\<dots> = replicate ((h div bh) * (w div bw)) (replicate (bh * bw) p)"
    by (rule concat_replicate_replicate)
  finally show ?thesis .
qed

text \<open>
  On an image of one colour, each subsampled writer that returns leaves the chroma
  bytes of that colour: the mean of equal bytes is that byte.
\<close>

lemma solid_colour_means:
  "0 < n \<Longrightarrow> map mean_U (replicate k (replicate n p)) = replicate k (pixel_convert plane_U p)"
  "0 < n \<Longrightarrow> map mean_V (replicate k (replicate n p)) = replicate k (pixel_convert plane_V p)"
  by (simp_all add: mean_replicate)

lemma solid_colour_packed422:
  assumes "Tar \<in> {yuv_YUY2, yuv_YVYU, yuv_UYVY, yuv_VYUY}"
    and "even (in_w * in_h)" "in_w * in_h < 2 ^ 64" "length ot_data = 2 * (in_w * in_h)"
  shows "transform_to_packed422 Tar (replicate (in_w * in_h) p) in_w in_h ot_data =
         Some (concat (replicate (in_w * in_h div 2) (group422 Tar (replicate 2 p))))"
    and "mean_U (replicate 2 p) = pixel_convert plane_U p"
    and "mean_V (replicate 2 p) = pixel_convert plane_V p"
proof -
  obtain n where n: "in_w * in_h = 2 * n" using assms(2) by auto
  have "chunks 2 (replicate (in_w * in_h) p) = replicate n (replicate 2 p)"
    unfolding n by (rule chunks_replicate) simp
  then show "transform_to_packed422 Tar (replicate (in_w * in_h) p) in_w in_h ot_data =
         Some (concat (replicate (in_w * in_h div 2) (group422 Tar (replicate 2 p))))"
    using transform_to_packed422_groups[OF assms(1,2,3) _ assms(4), of "replicate (in_w * in_h) p"] n
    by simp
qed (simp_all add: mean_replicate)

lemma solid_colour_422P:
  assumes "even (in_w * in_h)" "in_w * in_h < 2 ^ 64" "length ot_data = 2 * (in_w * in_h)"
  shows "transform_to_422P (replicate (in_w * in_h) p) in_w in_h u_init v_init ot_data =
         Some (replicate (in_w * in_h) (pixel_convert plane_Y p) @
               replicate (in_w * in_h div 2) (pixel_convert plane_U p) @
               replicate (in_w * in_h div 2) (pixel_convert plane_V p))"
proof -
  obtain n where n: "in_w * in_h = 2 * n" using assms(1) by auto
  have "chunks 2 (replicate (in_w * in_h) p) = replicate n (replicate 2 p)"
    unfolding n by (rule chunks_replicate) simp
  then show ?thesis
    using transform_to_422P_planes[OF assms(1,2) _ assms(3), of "replicate (in_w * in_h) p"] n
    by (simp add: mean_replicate)
qed

lemma solid_colour_Y41P:
  assumes "8 dvd in_w * in_h" "in_w * in_h < 2 ^ 64"
    and "length ot_data = in_w * in_h + in_w * in_h div 2"
  shows "transform_to_Y41P (replicate (in_w * in_h) p) in_w in_h u_init v_init ot_data =
         Some (concat (replicate (in_w * in_h div 8) (group_Y41P (replicate 8 p))))"
    and "group_Y41P (replicate 8 p) =
         [pixel_convert plane_U p, pixel_convert plane_Y p,
          pixel_convert plane_V p, pixel_convert plane_Y p,
          pixel_convert plane_U p, pixel_convert plane_Y p,
          pixel_convert plane_V p, pixel_convert plane_Y p,
          pixel_convert plane_Y p, pixel_convert plane_Y p,
          pixel_convert plane_Y p, pixel_convert plane_Y p]"
proof -
  obtain n where n: "in_w * in_h = 8 * n" using assms(1) by auto
  have "chunks 8 (replicate (in_w * in_h) p) = replicate n (replicate 8 p)"
    unfolding n by (rule chunks_replicate) simp
  then show "transform_to_Y41P (replicate (in_w * in_h) p) in_w in_h u_init v_init ot_data =
         Some (concat (replicate (in_w * in_h div 8) (group_Y41P (replicate 8 p))))"
    using transform_to_Y41P_groups[OF assms(1,2) _ assms(3), of "replicate (in_w * in_h) p"] n
    by simp
  have "take 4 (replicate 8 p) = replicate 4 p" "drop 4 (replicate 8 p) = replicate 4 p"
    by simp_all
  then show "group_Y41P (replicate 8 p) =
         [pixel_convert plane_U p, pixel_convert plane_Y p,
          pixel_convert plane_V p, pixel_convert plane_Y p,
          pixel_convert plane_U p, pixel_convert plane_Y p,
          pixel_convert plane_V p, pixel_convert plane_Y p,
          pixel_convert plane_Y p, pixel_convert plane_Y p,
          pixel_convert plane_Y p, pixel_convert plane_Y p]"
    by (simp add: group_Y41P_def mean_replicate del: take_replicate drop_replicate)
qed

lemma solid_colour_411P:
  assumes "4 dvd in_w * in_h" "in_w * in_h < 2 ^ 64"
    and "length ot_data = in_w * in_h + in_w * in_h div 2"
  shows "transform_to_411P (replicate (in_w * in_h) p) in_w in_h u_init v_init ot_data =
         Some (replicate (in_w * in_h) (pixel_convert plane_Y p) @
               replicate (in_w * in_h div 4) (pixel_convert plane_U p) @
               replicate (in_w * in_h div 4) (pixel_convert plane_V p))"
proof -
  obtain n where n: "in_w * in_h = 4 * n" using assms(1) by auto
  have "chunks 4 (replicate (in_w * in_h) p) = replicate n (replicate 4 p)"
    unfolding n by (rule chunks_replicate) simp
  then show ?thesis
    using transform_to_411P_planes[OF assms(1,2) _ assms(3), of "replicate (in_w * in_h) p"] n
    by (simp add: mean_replicate)
qed

lemma solid_colour_420:
  assumes "Tar \<in> {yuv_YV12, yuv_YU12, yuv_NV12, yuv_NV21}"
    and "even in_w" "even in_h" "in_w * in_h < 2 ^ 64"
    and "length ot_data = in_w * in_h + in_w * in_h div 2"
  shows "transform_to_420 Tar (replicate (in_w * in_h) p) in_w in_h u_junk v_junk ot_data =
         Some (planes Tar (replicate (in_w * in_h) (pixel_convert plane_Y p))
                 (replicate (in_h div 2 * (in_w div 2)) (pixel_convert plane_U p))
                 (replicate (in_h div 2 * (in_w div 2)) (pixel_convert plane_V p)))"
  using transform_to_420_planes[OF assms(1,2,3,4) _ assms(5), of "replicate (in_w * in_h) p"]
  by (simp add: blocks_replicate mean_replicate)

lemma solid_colour_410:
  assumes "Tar \<in> {yuv_YUV9, yuv_YVU9}"
    and "4 dvd in_w" "4 dvd in_h" "in_w * in_h < 2 ^ 64"
    and "length ot_data = in_w * in_h + in_w * in_h div 8"
  shows "transform_to_410 Tar (replicate (in_w * in_h) p) in_w in_h u_junk v_junk ot_data =
         Some (planes Tar (replicate (in_w * in_h) (pixel_convert plane_Y p))
                 (replicate (in_h div 4 * (in_w div 4)) (pixel_convert plane_U p))
                 (replicate (in_h div 4 * (in_w div 4)) (pixel_convert plane_V p)))"
  using transform_to_410_planes[OF assms(1,2,3,4) _ assms(5), of "replicate (in_w * in_h) p"]
  by (simp add: blocks_replicate mean_replicate)

text \<open>
  C9.  The 4:2:0 writers on an image of odd width, and the 4:1:0 writers on an image
  whose width is not a multiple of four, index their accumulator block outside its
  \<open>in_w >> 1\<close> or \<open>in_w >> 2\<close> cells in the first row: no run on such an image returns,
  whatever the pixels are and although the pixel count may be a multiple of 4 or of 16.
\<close>

theorem writers_leave_accumulator:
  "(odd in_w \<and> 0 < in_h \<longrightarrow>
      transform_to_420 Tar in_data in_w in_h u_junk v_junk ot_data = None) \<and>
   (\<not> 4 dvd in_w \<and> 0 < in_h \<longrightarrow>
      transform_to_410 Tar in_data in_w in_h u_junk v_junk ot_data = None)"
proof (intro conjI impI)
  assume a: "odd in_w \<and> 0 < in_h"
  then have w: "0 < in_w" by (cases in_w) simp_all
  have "row420_odd in_data in_w 0 False
          (0, split Tar plane_Y 0 in_w in_h, fill Tar 0 in_w in_h,
           map u_junk [0..<drop_bit 1 in_w], map v_junk [0..<drop_bit 1 in_w], ot_data) = None"
    using a w by (intro row420_odd_None) (simp_all add: drop_bit_eq_div)
  then show "transform_to_420 Tar in_data in_w in_h u_junk v_junk ot_data = None"
    using a by (simp add: transform_to_420_def Let_def rows420.simps[of _ _ _ _ 0])
next
  assume a: "\<not> 4 dvd in_w \<and> 0 < in_h"
  then have w: "0 < in_w" by (cases in_w) simp_all
  have "row410_first in_data in_w 0 1
          (0, split Tar plane_Y 0 in_w in_h, fill Tar 0 in_w in_h,
           map u_junk [0..<drop_bit 2 in_w], map v_junk [0..<drop_bit 2 in_w], ot_data) = None"
    using a w by (intro row410_first_None) (simp_all add: drop_bit_eq_div)
  then show "transform_to_410 Tar in_data in_w in_h u_junk v_junk ot_data = None"
    using a by (simp add: transform_to_410_def Let_def rows410.simps[of _ _ _ _ 0])
qed

theorem writers_leave_accumulator_witness:
  "odd (3 :: nat) \<and> \<not> 4 dvd (2 :: nat) \<and> 0 < (4 :: nat) \<and> 0 < (8 :: nat) \<and>
   calculate_size yuv_YU12 3 4 = Inr 18 \<and>
   transform_to_420 yuv_YU12 (replicate 12 \<lparr>rgb_b = 0, rgb_g = 0, rgb_r = 255\<rparr>) 3 4
     (\<lambda>k. 0) (\<lambda>k. 0) (replicate 18 0) = None \<and>
   calculate_size yuv_YUV9 2 8 = Inr 18 \<and>
   transform_to_410 yuv_YUV9 (replicate 16 \<lparr>rgb_b = 0, rgb_g = 0, rgb_r = 255\<rparr>) 2 8
     (\<lambda>k. 0) (\<lambda>k. 0) (replicate 18 0) = None"
  using writers_leave_accumulator[of 3 4 yuv_YU12 "replicate 12 \<lparr>rgb_b = 0, rgb_g = 0, rgb_r = 255\<rparr>"
      "\<lambda>k. 0" "\<lambda>k. 0" "replicate 18 0"]
    writers_leave_accumulator[of 2 8 yuv_YUV9 "replicate 16 \<lparr>rgb_b = 0, rgb_g = 0, rgb_r = 255\<rparr>"
      "\<lambda>k. 0" "\<lambda>k. 0" "replicate 18 0"]
  by (simp add: size_yuv_411P_def size_yuv_YVU9_def)

section \<open>Properties of the formatters\<close>


lemma peek_Some: "mem a = Some blk \<Longrightarrow> i < length blk \<Longrightarrow> peek mem (Ptr a) i = Inr (blk ! i)"
  by simp

lemma poke_Some:
  "mem a = Some blk \<Longrightarrow> i < length blk \<Longrightarrow> poke mem (Ptr a) i v = Inr (mem(a \<mapsto> blk[i := v]))"
  by simp

lemma peek16_Some:
  "mem a = Some blk \<Longrightarrow> c + 1 < length blk \<Longrightarrow>
   peek16 mem (Ptr a) c = Inr (ucast (blk ! c) OR push_bit 8 (ucast (blk ! (c + 1))))"
  by (simp add: peek16_def)













end
